theory Spec2Isabelle
  imports Main "HOL-Library.AList"
begin

section \<open>Python values used by app.py\<close>

text \<open>
  Strings are lists of 8-bit characters, read as the code points U+0000 to U+00FF.
  An exception that leaves a function is the left summand of its result; the right
  summand is the value the function returns.
\<close>

datatype exn = ParseError | OverflowError | TypeError | RequestException | JSONDecodeError

text \<open>
  A Python \<open>dict\<close> is an association list in insertion order with distinct keys.
  \<open>dict(pairs)\<close> inserts the pairs from left to right: a key seen again keeps its
  position and takes the later value.
\<close>

type_synonym ('k, 'v) dict = "('k \<times> 'v) list"

definition dict :: "('k \<times> 'v) list \<Rightarrow> ('k, 'v) dict" where
  "dict kvs = fold (\<lambda>(k, v) d. AList.update k v d) kvs []"

text \<open>\<open>d.get(k)\<close> and \<open>d.get(k, default)\<close>.\<close>

definition get :: "('k, 'v) dict \<Rightarrow> 'k \<Rightarrow> 'v option" where
  "get d k = map_of d k"

definition get_default :: "('k, 'v) dict \<Rightarrow> 'k \<Rightarrow> 'v \<Rightarrow> 'v" where
  "get_default d k dflt = (case map_of d k of None \<Rightarrow> dflt | Some v \<Rightarrow> v)"

section \<open>xml.etree.ElementTree\<close>

text \<open>
  An element as the code reads it: its tag, its text (\<open>None\<close> when the element has no
  character data) and its children in document order.  Attributes and tails are never
  read by app.py.
\<close>

datatype element = Element (tag: string) (elem_text: "string option") (children: "element list")

text \<open>
  \<open>Element.iter(tag)\<close>: the element itself when its tag matches (or no tag is given),
  then the matches of every child subtree, in document order.
\<close>

fun iter :: "string option \<Rightarrow> element \<Rightarrow> element list" where
  "iter tg (Element t x cs) =
     (if tg = None \<or> tg = Some t then [Element t x cs] else []) @ concat (map (iter tg) cs)"

text \<open>
  The paths of ElementPath that the code uses are sequences of two kinds of step:
  \<open>//tag\<close> (every proper descendant with that tag) and \<open>tag\<close> (every child with
  that tag).  A selector maps the current result list to the next one.
\<close>

datatype step = Descendant string | Child string

fun select :: "step \<Rightarrow> element list \<Rightarrow> element list" where
  "select (Descendant tg) result = concat (map (\<lambda>e. concat (map (iter (Some tg)) (children e))) result)"
| "select (Child tg) result = concat (map (\<lambda>e. filter (\<lambda>c. tag c = tg) (children e)) result)"

definition iterfind :: "step list \<Rightarrow> element \<Rightarrow> element list" where
  "iterfind path e = fold select path [e]"

definition findall :: "step list \<Rightarrow> element \<Rightarrow> element list" where
  "findall path e = iterfind path e"

definition find_first :: "step list \<Rightarrow> element \<Rightarrow> element option" where
  "find_first path e = (case iterfind path e of [] \<Rightarrow> None | x # _ \<Rightarrow> Some x)"

section \<open>five9\_get\_agent\_states: the parsing part (lines 73 to 95)\<close>

text \<open>
  Lines 75 to 77: every tag that contains a closing brace is replaced by what follows
  its first closing brace.
\<close>

definition strip_namespace :: "string \<Rightarrow> string" where
  "strip_namespace t = (if CHR ''}'' \<in> set t then tl (dropWhile (\<lambda>c. c \<noteq> CHR ''}'') t) else t)"

fun strip_tags :: "element \<Rightarrow> element" where
  "strip_tags (Element t x cs) = Element (strip_namespace t) x (map strip_tags cs)"

text \<open>\<open>[d.text or "" for d in node.findall("data")]\<close>\<close>

definition data_texts :: "element \<Rightarrow> string list" where
  "data_texts node =
     map (\<lambda>d. case elem_text d of None \<Rightarrow> [] | Some s \<Rightarrow> s) (findall [Child ''data''] node)"

text \<open>
  Lines 86 to 93: the loop over the row nodes, appending one dict per row that has a
  \<open>values\<close> child.
\<close>

fun agents_loop ::
  "string list \<Rightarrow> element list \<Rightarrow> (string, string) dict list \<Rightarrow> (string, string) dict list"
where
  "agents_loop columns [] agents = agents"
| "agents_loop columns (row_node # rest) agents =
     (case find_first [Child ''values''] row_node of
        None \<Rightarrow> agents_loop columns rest agents
      | Some values_node \<Rightarrow>
          agents_loop columns rest (agents @ [dict (zip columns (data_texts values_node))]))"

text \<open>
  The result of the function is the pair \<open>(agents, err)\<close> of the source, each
  component \<open>None\<close> or a value.  \<open>fromstring\<close> is \<open>ET.fromstring\<close>: it returns the
  root element of a well-formed document and raises \<open>ParseError\<close> otherwise.
\<close>

type_synonym agent = "(string, string) dict"

definition parse_agent_states ::
  "(string \<Rightarrow> exn + element) \<Rightarrow> string \<Rightarrow> exn + (agent list option \<times> string option)"
where
  "parse_agent_states fromstring body =
     (case fromstring body of
        Inl e \<Rightarrow> Inl e
      | Inr parsed \<Rightarrow>
          (let root = strip_tags parsed in
           case find_first [Descendant ''columns'', Child ''values''] root of
             None \<Rightarrow> Inr (None, Some ''No columns found in response'')
           | Some columns_node \<Rightarrow>
               Inr (Some (agents_loop (data_texts columns_node)
                            (findall [Descendant ''rows''] root) []),
                    None)))"

section \<open>datetime: the proleptic Gregorian calendar\<close>

text \<open>
  The calendar functions of the standard library's datetime module, after its
  reference implementation.  Python integers are unbounded and \<open>//\<close> and \<open>%\<close> round
  toward minus infinity, as \<open>div\<close> and \<open>mod\<close> on \<open>int\<close> do.
\<close>

definition is_leap :: "int \<Rightarrow> bool" where
  "is_leap year = (year mod 4 = 0 \<and> (year mod 100 \<noteq> 0 \<or> year mod 400 = 0))"

definition DAYS_IN_MONTH :: "int list" where
  "DAYS_IN_MONTH = [-1, 31, 28, 31, 30, 31, 30, 31, 31, 30, 31, 30, 31]"

definition DAYS_BEFORE_MONTH :: "int list" where
  "DAYS_BEFORE_MONTH = [-1, 0, 31, 59, 90, 120, 151, 181, 212, 243, 273, 304, 334]"

definition days_before_year :: "int \<Rightarrow> int" where
  "days_before_year year = (let y = year - 1 in y * 365 + y div 4 - y div 100 + y div 400)"

definition days_in_month :: "int \<Rightarrow> int \<Rightarrow> int" where
  "days_in_month year month =
     (if month = 2 \<and> is_leap year then 29 else DAYS_IN_MONTH ! nat month)"

definition days_before_month :: "int \<Rightarrow> int \<Rightarrow> int" where
  "days_before_month year month =
     DAYS_BEFORE_MONTH ! nat month + (if month > 2 \<and> is_leap year then 1 else 0)"

definition ymd2ord :: "int \<Rightarrow> int \<Rightarrow> int \<Rightarrow> int" where
  "ymd2ord year month day = days_before_year year + days_before_month year month + day"

definition DI400Y :: int where "DI400Y = days_before_year 401"
definition DI100Y :: int where "DI100Y = days_before_year 101"
definition DI4Y :: int where "DI4Y = days_before_year 5"

definition MAXORDINAL :: int where
  "MAXORDINAL = 3652059"

definition ord2ymd :: "int \<Rightarrow> int \<times> int \<times> int" where
  "ord2ymd ordinal =
     (let n = ordinal - 1;
          n400 = n div DI400Y; n = n mod DI400Y;
          year = n400 * 400 + 1;
          n100 = n div DI100Y; n = n mod DI100Y;
          n4 = n div DI4Y; n = n mod DI4Y;
          n1 = n div 365; n = n mod 365;
          year = year + n100 * 100 + n4 * 4 + n1
      in if n1 = 4 \<or> n100 = 4 then (year - 1, 12, 31)
         else
           (let leapyear = (n1 = 3 \<and> (n4 \<noteq> 24 \<or> n100 = 3));
                month = (n + 50) div 32;
                preceding = DAYS_BEFORE_MONTH ! nat month + (if month > 2 \<and> leapyear then 1 else 0)
            in if preceding > n
               then (let month = month - 1;
                         preceding = preceding
                           - (DAYS_IN_MONTH ! nat month + (if month = 2 \<and> leapyear then 1 else 0))
                     in (year, month, n - preceding + 1))
               else (year, month, n - preceding + 1)))"

text \<open>
  A naive \<open>datetime\<close>.  The microsecond is left out: \<open>strptime\<close> with the format of
  the code sets it to 0, a shift by whole hours keeps it, and \<open>strftime\<close> with that
  format does not print it.
\<close>

record datetime =
  year :: int
  month :: int
  day :: int
  hour :: int
  minute :: int
  second :: int

text \<open>The checks of the \<open>datetime\<close> constructor; it raises \<open>ValueError\<close> when one fails.\<close>

definition check_fields :: "datetime \<Rightarrow> bool" where
  "check_fields dt =
     (1 \<le> year dt \<and> year dt \<le> 9999 \<and> 1 \<le> month dt \<and> month dt \<le> 12 \<and>
      1 \<le> day dt \<and> day dt \<le> days_in_month (year dt) (month dt) \<and>
      0 \<le> hour dt \<and> hour dt \<le> 23 \<and> 0 \<le> minute dt \<and> minute dt \<le> 59 \<and>
      0 \<le> second dt \<and> second dt \<le> 59)"

definition toordinal :: "datetime \<Rightarrow> int" where
  "toordinal dt = ymd2ord (year dt) (month dt) (day dt)"

text \<open>
  \<open>naive - timedelta(hours=h)\<close>: the days and seconds of the datetime and of the
  negated delta are added and normalised; a day count outside 1 to \<open>MAXORDINAL\<close>
  raises \<open>OverflowError\<close>.
\<close>

definition sub_hours :: "datetime \<Rightarrow> int \<Rightarrow> exn + datetime" where
  "sub_hours dt h =
     (let total = toordinal dt * 86400 + hour dt * 3600 + minute dt * 60 + second dt - h * 3600;
          days = total div 86400; rem = total mod 86400
      in if 0 < days \<and> days \<le> MAXORDINAL
         then (case ord2ymd days of (y, m, d) \<Rightarrow>
                 Inr \<lparr>year = y, month = m, day = d,
                      hour = rem div 3600, minute = (rem mod 3600) div 60, second = (rem mod 3600) mod 60\<rparr>)
         else Inl OverflowError)"

section \<open>datetime: strptime and strftime with the format of the code\<close>

text \<open>
  Decimal digits, \<open>str(n)\<close> and \<open>%0wd\<close>.  \<open>int_of\<close> is \<open>int(s)\<close> on a group that the
  regular expression below has matched: digits, after one space in the case of a day;
  \<open>int\<close> skips the space.
\<close>

definition digits :: string where
  "digits = ''0123456789''"

definition digit_val :: "char \<Rightarrow> int" where
  "digit_val c = of_char c - 48"

definition digit_chr :: "int \<Rightarrow> char" where
  "digit_chr d = char_of (d + 48)"

definition int_of :: "string \<Rightarrow> int" where
  "int_of s = fold (\<lambda>c n. 10 * n + digit_val c) (filter (\<lambda>c. c \<in> set digits) s) 0"

fun zero_pad :: "nat \<Rightarrow> int \<Rightarrow> string" where
  "zero_pad 0 n = []"
| "zero_pad (Suc w) n = zero_pad w (n div 10) @ [digit_chr (n mod 10)]"

function str_nat :: "nat \<Rightarrow> string" where
  "str_nat n = (if n < 10 then [digit_chr (int n)] else str_nat (n div 10) @ [digit_chr (int (n mod 10))])"
  by pat_completeness auto
termination
  by (relation "measure id") auto

declare str_nat.simps [simp del]

definition str_int :: "int \<Rightarrow> string" where
  "str_int i = (if i < 0 then CHR ''-'' # str_nat (nat (- i)) else str_nat (nat i))"

text \<open>
  \<open>strptime\<close> compiles the format \<open>%Y-%m-%d %H:%M:%S\<close> to the regular expression

  \<^verbatim>\<open>(\d\d\d\d)-(1[0-2]|0[1-9]|[1-9])-(3[0-1]|[1-2]\d|0[1-9]|[1-9]| [1-9])\s+\<close>
  \<^verbatim>\<open>(2[0-3]|[0-1]\d|\d):([0-5]\d|\d):(6[0-1]|[0-5]\d|\d)\<close>

  and matches it at the start of the input.  A matcher returns its successes in the
  order in which a backtracking engine tries them, each with the input that is left;
  the match of the whole expression is the first success of the sequence.  Within
  U+0000 to U+00FF the class \<open>\d\<close> is the ten ASCII digits and \<open>\s\<close> is the class
  \<open>is_space\<close> below.
\<close>

definition is_space :: "char \<Rightarrow> bool" where
  "is_space c = ((of_char c :: nat) \<in> {9, 10, 11, 12, 13, 28, 29, 30, 31, 32, 133, 160})"

fun match_seq :: "string list \<Rightarrow> string \<Rightarrow> (string \<times> string) list" where
  "match_seq [] s = [([], s)]"
| "match_seq (cls # rest) [] = []"
| "match_seq (cls # rest) (c # s) =
     (if c \<in> set cls then map (\<lambda>(m, r). (c # m, r)) (match_seq rest s) else [])"

definition match_alts :: "string list list \<Rightarrow> string \<Rightarrow> (string \<times> string) list" where
  "match_alts alts s = concat (map (\<lambda>a. match_seq a s) alts)"

definition match_lit :: "char \<Rightarrow> string \<Rightarrow> string list" where
  "match_lit c s = (case s of [] \<Rightarrow> [] | x # r \<Rightarrow> if x = c then [r] else [])"

definition match_spaces :: "string \<Rightarrow> string list" where
  "match_spaces s = map (\<lambda>k. drop k s) (rev [1..<Suc (length (takeWhile is_space s))])"

definition re_Y :: "string list list" where
  "re_Y = [[digits, digits, digits, digits]]"

definition re_m :: "string list list" where
  "re_m = [[''1'', ''012''], [''0'', ''123456789''], [''123456789'']]"

definition re_d :: "string list list" where
  "re_d = [[''3'', ''01''], [''12'', digits], [''0'', ''123456789''], [''123456789''],
           ['' '', ''123456789'']]"

definition re_H :: "string list list" where
  "re_H = [[''2'', ''0123''], [''01'', digits], [digits]]"

definition re_M :: "string list list" where
  "re_M = [[''012345'', digits], [digits]]"

definition re_S :: "string list list" where
  "re_S = [[''6'', ''01''], [''012345'', digits], [digits]]"

definition format_regex_match :: "string \<Rightarrow> (datetime \<times> string) option" where
  "format_regex_match s =
     (case [(\<lparr>year = int_of Y, month = int_of m, day = int_of d,
               hour = int_of H, minute = int_of M, second = int_of S\<rparr>, r11).
              (Y, r1) \<leftarrow> match_alts re_Y s, r2 \<leftarrow> match_lit CHR ''-'' r1,
              (m, r3) \<leftarrow> match_alts re_m r2, r4 \<leftarrow> match_lit CHR ''-'' r3,
              (d, r5) \<leftarrow> match_alts re_d r4, r6 \<leftarrow> match_spaces r5,
              (H, r7) \<leftarrow> match_alts re_H r6, r8 \<leftarrow> match_lit CHR '':'' r7,
              (M, r9) \<leftarrow> match_alts re_M r8, r10 \<leftarrow> match_lit CHR '':'' r9,
              (S, r11) \<leftarrow> match_alts re_S r10]
      of [] \<Rightarrow> None | found # _ \<Rightarrow> Some found)"

text \<open>
  \<open>datetime.strptime(s, "%Y-%m-%d %H:%M:%S")\<close>: \<open>ValueError\<close> when the expression
  does not match, when input is left after the match, and when the fields are not a
  date and a time.
\<close>

datatype value_error = ValueError

definition strptime :: "string \<Rightarrow> value_error + datetime" where
  "strptime s =
     (case format_regex_match s of
        None \<Rightarrow> Inl ValueError
      | Some (dt, unconverted) \<Rightarrow>
          if unconverted \<noteq> [] then Inl ValueError
          else if \<not> check_fields dt then Inl ValueError
          else Inr dt)"

text \<open>
  \<open>dt.strftime("%Y-%m-%d %H:%M:%S")\<close>.  CPython hands \<open>%Y\<close> to the C library; the GNU C
  library prints the year as a plain decimal number, without padding (year 1 is printed
  \<open>1\<close>), which is what is taken here.  Other C libraries pad the year to four digits;
  the two agree from the year 1000 on.
\<close>

definition strftime :: "datetime \<Rightarrow> string" where
  "strftime dt =
     str_int (year dt) @ ''-'' @ zero_pad 2 (month dt) @ ''-'' @ zero_pad 2 (day dt) @ '' '' @
     zero_pad 2 (hour dt) @ '':'' @ zero_pad 2 (minute dt) @ '':'' @ zero_pad 2 (second dt)"

section \<open>write\_to\_supabase\<close>

definition FIVE9_TZ_OFFSET_HOURS :: int where
  "FIVE9_TZ_OFFSET_HOURS = - 8"

text \<open>
  Lines 108 to 116, with the offset as an argument: the conversion of the raw
  \<open>State Since\<close> string.  The \<open>except\<close> clause catches \<open>ValueError\<close> only, which is
  what \<open>strptime\<close> raises; the \<open>OverflowError\<close> of the subtraction is not caught.
\<close>

definition to_utc :: "int \<Rightarrow> string \<Rightarrow> exn + string" where
  "to_utc offset state_since_raw =
     (if state_since_raw = [] then Inr []
      else case strptime state_since_raw of
             Inl ValueError \<Rightarrow> Inr state_since_raw
           | Inr naive \<Rightarrow>
               (case sub_hours naive offset of
                  Inl e \<Rightarrow> Inl e
                | Inr utc_dt \<Rightarrow> Inr (strftime utc_dt)))"

text \<open>
  An aware UTC \<open>datetime\<close> and its \<open>isoformat()\<close> string are identified with the
  instant they denote, counted in microseconds.
\<close>

type_synonym timestamp = int

record snapshot_row =
  snapshot_ts :: timestamp
  username :: string
  full_name :: string
  state :: string
  reason_code :: string
  state_since :: string
  state_since_utc :: string
  state_duration :: string
  campaign_name :: string
  call_type :: string
  media_availability :: string

text \<open>Lines 102 to 130: the loop that builds the rows.\<close>

fun rows_loop :: "timestamp \<Rightarrow> agent list \<Rightarrow> snapshot_row list \<Rightarrow> exn + snapshot_row list" where
  "rows_loop ts [] rows = Inr rows"
| "rows_loop ts (a # rest) rows =
     (if get a ''State'' = Some ''Logged Out'' then rows_loop ts rest rows
      else case to_utc FIVE9_TZ_OFFSET_HOURS (get_default a ''State Since'' []) of
             Inl e \<Rightarrow> Inl e
           | Inr utc \<Rightarrow>
               rows_loop ts rest (rows @
                 [\<lparr>snapshot_ts = ts,
                   username = get_default a ''Username'' [],
                   full_name = get_default a ''Full Name'' [],
                   state = get_default a ''State'' [],
                   reason_code = get_default a ''Reason Code'' [],
                   state_since = get_default a ''State Since'' [],
                   state_since_utc = utc,
                   state_duration = get_default a ''State Duration'' [],
                   campaign_name = get_default a ''Campaign Name'' [],
                   call_type = get_default a ''Call Type'' [],
                   media_availability = get_default a ''Media Availability'' []\<rparr>]))"

section \<open>The remote services\<close>

text \<open>
  A call of \<open>requests\<close> either raises (a connection error, a timeout) or returns a
  response.  Of a response the code reads the status code, the text and, after a
  delete, \<open>len(resp.json())\<close>, which raises when the body is not JSON or has no length.
  A request is described by what varies in it: the SOAP method and body of a call to
  Five9, the rows of an insert, the cutoff of a delete with the filter
  \<open>snapshot_ts=lt.cutoff\<close>.  URLs, credentials, headers and timeouts are constants.
  The environment answers a request and moves to its next state.
\<close>

record response =
  status_code :: int
  resp_text :: string
  json_len :: "exn + nat"

datatype request =
    Five9Call string string
  | InsertRows "snapshot_row list"
  | DeleteOlder timestamp

type_synonym 'w http = "request \<Rightarrow> 'w \<Rightarrow> (exn + response) \<times> 'w"

definition five9_soap_call :: "'w http \<Rightarrow> string \<Rightarrow> string \<Rightarrow> 'w \<Rightarrow> (exn + response) \<times> 'w" where
  "five9_soap_call http method body_xml w = http (Five9Call method body_xml) w"

text \<open>The body of lines 56 to 59, with its three line feeds and its indentation.\<close>

definition session_body :: string where
  "session_body =
     ''<viewSettings>'' @ [CHR 0x0A] @
     ''        <rollingPeriod>Today</rollingPeriod>'' @ [CHR 0x0A] @
     ''        <statisticsRange>CurrentDay</statisticsRange>'' @ [CHR 0x0A] @
     ''      </viewSettings>''"

definition five9_set_session :: "'w http \<Rightarrow> 'w \<Rightarrow> (exn + bool) \<times> 'w" where
  "five9_set_session http w =
     (case five9_soap_call http ''setSessionParameters'' session_body w of
        (Inl e, w') \<Rightarrow> (Inl e, w')
      | (Inr resp, w') \<Rightarrow> (Inr (status_code resp = 200), w'))"

definition five9_get_agent_states ::
  "'w http \<Rightarrow> (string \<Rightarrow> exn + element) \<Rightarrow> 'w \<Rightarrow> (exn + (agent list option \<times> string option)) \<times> 'w"
where
  "five9_get_agent_states http fromstring w =
     (case five9_soap_call http ''getStatistics'' ''<statisticType>AgentState</statisticType>'' w of
        (Inl e, w') \<Rightarrow> (Inl e, w')
      | (Inr resp, w') \<Rightarrow>
          if status_code resp \<noteq> 200
          then (Inr (None, Some (''Five9 returned '' @ str_int (status_code resp) @ '': ''
                                  @ take 500 (resp_text resp))), w')
          else (parse_agent_states fromstring (resp_text resp), w'))"

definition write_to_supabase ::
  "'w http \<Rightarrow> agent list \<Rightarrow> timestamp \<Rightarrow> 'w \<Rightarrow> (exn + (int \<times> string option)) \<times> 'w"
where
  "write_to_supabase http agents ts w =
     (case rows_loop ts agents [] of
        Inl e \<Rightarrow> (Inl e, w)
      | Inr rows \<Rightarrow>
          if rows = [] then (Inr (0, None), w)
          else case http (InsertRows rows) w of
                 (Inl e, w') \<Rightarrow> (Inl e, w')
               | (Inr resp, w') \<Rightarrow>
                   if status_code resp \<noteq> 200 \<and> status_code resp \<noteq> 201
                   then (Inr (0, Some (''Supabase error '' @ str_int (status_code resp) @ '': ''
                                        @ take 500 (resp_text resp))), w')
                   else (Inr (int (length rows), None), w'))"

section \<open>The poll endpoint\<close>

text \<open>
  The clock readings of one invocation, in microseconds: \<open>time.time()\<close> at the start
  and at the end, \<open>datetime.now(timezone.utc)\<close> for the snapshot and for the purge.
  The JSON body of the reply is the list of its members in order.  \<open>JTime\<close> is the
  \<open>isoformat()\<close> string of an instant; \<open>JElapsed d\<close> is the float
  \<open>round(d, 2)\<close> of a difference \<open>d\<close> of two readings, which is not evaluated.
\<close>

record clock =
  time_start :: int
  now_snapshot :: timestamp
  now_purge :: timestamp
  time_end :: int

datatype json = JBool bool | JInt int | JStr string | JTime timestamp | JElapsed int

type_synonym reply = "(string \<times> json) list \<times> int"

text \<open>\<open>if err:\<close> holds for a string that is not empty.\<close>

definition truthy :: "string option \<Rightarrow> bool" where
  "truthy err = (case err of None \<Rightarrow> False | Some msg \<Rightarrow> msg \<noteq> [])"

definition failure :: "string \<Rightarrow> reply" where
  "failure msg = ([(''ok'', JBool False), (''error'', JStr msg)], 500)"

definition hours48 :: int where
  "hours48 = 48 * 3600 * 1000000"

text \<open>
  Lines 181 to 204, entered after the write has succeeded.  A reply without an explicit
  status is sent with status 200.
\<close>

definition purge_and_report ::
  "'w http \<Rightarrow> clock \<Rightarrow> agent list \<Rightarrow> int \<Rightarrow> 'w \<Rightarrow> (exn + reply) \<times> 'w"
where
  "purge_and_report http clk agents count w =
     (case http (DeleteOlder (now_purge clk - hours48)) w of
        (Inl e, w') \<Rightarrow> (Inl e, w')
      | (Inr del_resp, w') \<Rightarrow>
          (case (if status_code del_resp = 200 then json_len del_resp else Inr 0) of
             Inl e \<Rightarrow> (Inl e, w')
           | Inr purged \<Rightarrow>
               (Inr ([(''ok'', JBool True),
                      (''agents_total'', JInt (int (length agents))),
                      (''agents_written'', JInt count),
                      (''purged'', JInt (int purged)),
                      (''snapshot_ts'', JTime (now_snapshot clk)),
                      (''elapsed_sec'', JElapsed (time_end clk - time_start clk))], 200), w')))"

definition poll ::
  "'w http \<Rightarrow> (string \<Rightarrow> exn + element) \<Rightarrow> clock \<Rightarrow> 'w \<Rightarrow> (exn + reply) \<times> 'w"
where
  "poll http fromstring clk w =
     (case five9_set_session http w of
        (Inl e, w1) \<Rightarrow> (Inl e, w1)
      | (Inr session_ok, w1) \<Rightarrow>
          if \<not> session_ok then (Inr (failure ''Failed to set Five9 session''), w1)
          else case five9_get_agent_states http fromstring w1 of
                 (Inl e, w2) \<Rightarrow> (Inl e, w2)
               | (Inr (agents, err), w2) \<Rightarrow>
                   if truthy err then (Inr (failure (the err)), w2)
                   else case agents of
                          None \<Rightarrow> (Inl TypeError, w2)
                        | Some agents \<Rightarrow>
                            (case write_to_supabase http agents (now_snapshot clk) w2 of
                               (Inl e, w3) \<Rightarrow> (Inl e, w3)
                             | (Inr (count, err), w3) \<Rightarrow>
                                 if truthy err then (Inr (failure (the err)), w3)
                                 else purge_and_report http clk agents count w3))"

section \<open>Environments\<close>

text \<open>An environment that records every request it receives, in order.\<close>

definition logged :: "'w http \<Rightarrow> ('w \<times> request list) http" where
  "logged http req = (\<lambda>(w, log). case http req w of (r, w') \<Rightarrow> (r, (w', log @ [req])))"

text \<open>
  Modelled from the spec: the durable store, a service outside the repository, as
  section 6 of the specification describes it.  Its state is the table of persisted rows; an insert appends the rows and answers 201; a delete with
  the filter \<open>snapshot_ts=lt.cutoff\<close> removes the rows whose \<open>snapshot_ts\<close> is less
  than the cutoff and answers 200 with the removed rows.  Calls to Five9 are answered
  by \<open>five9\<close> and leave the table unchanged.
\<close>

definition store :: "(string \<Rightarrow> string \<Rightarrow> exn + response) \<Rightarrow> snapshot_row list http" where
  "store five9 req table =
     (case req of
        Five9Call method body_xml \<Rightarrow> (five9 method body_xml, table)
      | InsertRows rows \<Rightarrow>
          (Inr \<lparr>status_code = 201, resp_text = [], json_len = Inl JSONDecodeError\<rparr>, table @ rows)
      | DeleteOlder cutoff \<Rightarrow>
          (Inr \<lparr>status_code = 200, resp_text = [],
                json_len = Inr (length (filter (\<lambda>r. snapshot_ts r < cutoff) table))\<rparr>,
           filter (\<lambda>r. \<not> snapshot_ts r < cutoff) table))"

text \<open>An environment without state that answers each kind of request with a fixed result.\<close>

definition scripted ::
  "(exn + response) \<Rightarrow> (exn + response) \<Rightarrow> (exn + response) \<Rightarrow> (exn + response) \<Rightarrow> unit http"
where
  "scripted session stats ins del req w =
     (case req of
        Five9Call method body_xml \<Rightarrow> (if method = ''setSessionParameters'' then session else stats, w)
      | InsertRows rows \<Rightarrow> (ins, w)
      | DeleteOlder cutoff \<Rightarrow> (del, w))"

section \<open>Notions of the specification\<close>

text \<open>The proper descendants of an element, in document order.\<close>

definition descendants :: "element \<Rightarrow> element list" where
  "descendants e = tl (iter None e)"

text \<open>
  A response declares its columns when some descendant of the root named \<open>columns\<close>
  has a child named \<open>values\<close>.  Its row elements are the descendants named \<open>rows\<close>.
\<close>

definition has_columns_declaration :: "element \<Rightarrow> bool" where
  "has_columns_declaration root =
     (\<exists>c \<in> set (descendants root). tag c = ''columns'' \<and> (\<exists>v \<in> set (children c). tag v = ''values''))"

definition row_elements :: "element \<Rightarrow> element list" where
  "row_elements root = filter (\<lambda>e. tag e = ''rows'') (descendants root)"

text \<open>
  The lexical form \<open>YYYY-MM-DD HH:MM:SS\<close>: nineteen characters, digits except for the
  two hyphens, the space and the two colons.
\<close>

definition form_classes :: "string list" where
  "form_classes =
     [digits, digits, digits, digits, ''-'', digits, digits, ''-'', digits, digits, '' '',
      digits, digits, '':'', digits, digits, '':'', digits, digits]"

definition lexical_form :: "string \<Rightarrow> bool" where
  "lexical_form s = list_all2 (\<lambda>c cls. c \<in> set cls) s form_classes"

text \<open>
  A date and time written in that form, every field padded with zeros; and the fields
  that a string of that form shows at its digit positions.
\<close>

definition canonical :: "datetime \<Rightarrow> string" where
  "canonical dt =
     zero_pad 4 (year dt) @ ''-'' @ zero_pad 2 (month dt) @ ''-'' @ zero_pad 2 (day dt) @ '' '' @
     zero_pad 2 (hour dt) @ '':'' @ zero_pad 2 (minute dt) @ '':'' @ zero_pad 2 (second dt)"

definition fields_of :: "string \<Rightarrow> datetime" where
  "fields_of s =
     \<lparr>year = int_of (take 4 s), month = int_of (take 2 (drop 5 s)),
      day = int_of (take 2 (drop 8 s)), hour = int_of (take 2 (drop 11 s)),
      minute = int_of (take 2 (drop 14 s)), second = int_of (take 2 (drop 17 s))\<rparr>"

text \<open>
  The time a naive \<open>datetime\<close> denotes, in seconds: 86400 for every day of its
  ordinal, and the seconds of its time of day.  ``Local minus \<open>o\<close> hours'' is this
  number minus \<open>3600 * o\<close>.
\<close>

definition seconds_of :: "datetime \<Rightarrow> int" where
  "seconds_of dt = toordinal dt * 86400 + hour dt * 3600 + minute dt * 60 + second dt"

text \<open>A record is excluded from the snapshot when its \<open>State\<close> is \<open>Logged Out\<close>.\<close>

definition excluded :: "agent \<Rightarrow> bool" where
  "excluded a = (get a ''State'' = Some ''Logged Out'')"

text \<open>
  The row that the specification describes for a retained record: every field is looked
  up by name with the empty string as default, and \<open>state_since_utc\<close> is \<open>utc\<close>.
\<close>

definition projected :: "timestamp \<Rightarrow> agent \<Rightarrow> string \<Rightarrow> snapshot_row" where
  "projected ts a utc =
     \<lparr>snapshot_ts = ts,
      username = get_default a ''Username'' [],
      full_name = get_default a ''Full Name'' [],
      state = get_default a ''State'' [],
      reason_code = get_default a ''Reason Code'' [],
      state_since = get_default a ''State Since'' [],
      state_since_utc = utc,
      state_duration = get_default a ''State Duration'' [],
      campaign_name = get_default a ''Campaign Name'' [],
      call_type = get_default a ''Call Type'' [],
      media_availability = get_default a ''Media Availability'' []\<rparr>"

section \<open>Sample documents\<close>

text \<open>
  Three responses of the statistics service and the trees \<open>ET.fromstring\<close> builds
  for them; \<open>sample_fromstring\<close> is the parser restricted to these documents and to
  one text that is not XML.
\<close>

definition body_agents :: string where
  "body_agents = ''<ns2:getStatisticsResponse xmlns:ns2=\"http://service.supervisor.ws.five9.com/\"><return><columns><values><data>Username</data><data>State</data><data>State Since</data></values></columns><rows><values><data>alice</data><data>Ready</data><data>2024-01-15 10:00:00</data></values></rows><rows><values><data>bob</data><data>Logged Out</data></values></rows><rows/><rows><values><data>carol</data><data>On Call</data><data></data><data>extra</data></values></rows></return></ns2:getStatisticsResponse>''"

definition doc_agents :: element where
  "doc_agents =
     Element ''{http://service.supervisor.ws.five9.com/}getStatisticsResponse'' None
       [Element ''return'' None
          [Element ''columns'' None
             [Element ''values'' None
                [Element ''data'' (Some ''Username'') [],
                 Element ''data'' (Some ''State'') [],
                 Element ''data'' (Some ''State Since'') []]],
           Element ''rows'' None
             [Element ''values'' None
                [Element ''data'' (Some ''alice'') [],
                 Element ''data'' (Some ''Ready'') [],
                 Element ''data'' (Some ''2024-01-15 10:00:00'') []]],
           Element ''rows'' None
             [Element ''values'' None
                [Element ''data'' (Some ''bob'') [],
                 Element ''data'' (Some ''Logged Out'') []]],
           Element ''rows'' None [],
           Element ''rows'' None
             [Element ''values'' None
                [Element ''data'' (Some ''carol'') [],
                 Element ''data'' (Some ''On Call'') [],
                 Element ''data'' None [],
                 Element ''data'' (Some ''extra'') []]]]]"

definition body_no_columns :: string where
  "body_no_columns = ''<r><rows><values><data>alice</data></values></rows></r>''"

definition doc_no_columns :: element where
  "doc_no_columns =
     Element ''r'' None
       [Element ''rows'' None [Element ''values'' None [Element ''data'' (Some ''alice'') []]]]"

definition body_no_rows :: string where
  "body_no_rows = ''<r><columns><values><data>Username</data></values></columns></r>''"

definition doc_no_rows :: element where
  "doc_no_rows =
     Element ''r'' None
       [Element ''columns'' None [Element ''values'' None [Element ''data'' (Some ''Username'') []]]]"

definition body_not_xml :: string where
  "body_not_xml = ''Service Unavailable''"

definition sample_fromstring :: "string \<Rightarrow> exn + element" where
  "sample_fromstring body =
     (if body = body_agents then Inr doc_agents
      else if body = body_no_columns then Inr doc_no_columns
      else if body = body_no_rows then Inr doc_no_rows
      else Inl ParseError)"

section \<open>Sample invocations\<close>

definition sample_clock :: clock where
  "sample_clock =
     \<lparr>time_start = 1700000000000000, now_snapshot = 1700000000100000,
      now_purge = 1700000001500000, time_end = 1700000001900000\<rparr>"

definition sample_agents :: "agent list" where
  "sample_agents =
     [[(''Username'', ''alice''), (''State'', ''Ready''), (''State Since'', ''2024-01-15 10:00:00'')],
      [(''Username'', ''bob''), (''State'', ''Logged Out'')],
      [(''Username'', ''carol''), (''State'', ''On Call''), (''State Since'', [])]]"

definition answer :: "int \<Rightarrow> string \<Rightarrow> exn + response" where
  "answer code body = Inr \<lparr>status_code = code, resp_text = body, json_len = Inl JSONDecodeError\<rparr>"

text \<open>The session call is refused with status 503.\<close>

definition env_session_fails :: "unit http" where
  "env_session_fails =
     scripted (answer 503 ''Service Unavailable'') (answer 200 body_agents) (answer 201 [])
       (Inr \<lparr>status_code = 200, resp_text = ''[]'', json_len = Inr 0\<rparr>)"

text \<open>The statistics call is answered with status 200 and a body that is not XML.\<close>

definition env_not_xml :: "unit http" where
  "env_not_xml =
     scripted (answer 200 []) (answer 200 body_not_xml) (answer 201 [])
       (Inr \<lparr>status_code = 200, resp_text = ''[]'', json_len = Inr 0\<rparr>)"

text \<open>Everything succeeds but the delete, which is refused with status 500.\<close>

definition env_purge_fails :: "unit http" where
  "env_purge_fails =
     scripted (answer 200 []) (answer 200 body_agents) (answer 201 [])
       (answer 500 ''{\"message\":\"permission denied\"}'')"

text \<open>Everything succeeds and the delete removes no row.\<close>

definition env_purge_empty :: "unit http" where
  "env_purge_empty =
     scripted (answer 200 []) (answer 200 body_agents) (answer 201 [])
       (Inr \<lparr>status_code = 200, resp_text = ''[]'', json_len = Inr 0\<rparr>)"

text \<open>A Five9 service that answers both calls, the second with the sample document.\<close>

definition sample_five9 :: "string \<Rightarrow> string \<Rightarrow> exn + response" where
  "sample_five9 method body_xml =
     (if method = ''setSessionParameters'' then answer 200 [] else answer 200 body_agents)"

text \<open>A row of the store with the given \<open>snapshot_ts\<close> and user name.\<close>

definition stored_row :: "timestamp \<Rightarrow> string \<Rightarrow> snapshot_row" where
  "stored_row ts name =
     \<lparr>snapshot_ts = ts, username = name, full_name = [], state = ''Ready'', reason_code = [],
      state_since = [], state_since_utc = [], state_duration = [], campaign_name = [],
      call_type = [], media_availability = []\<rparr>"

text \<open>One record whose \<open>State Since\<close> is the last second of the year 9999.\<close>

definition agents_sentinel :: "agent list" where
  "agents_sentinel =
     [[(''Username'', ''dave''), (''State'', ''Ready''), (''State Since'', ''9999-12-31 23:59:59'')]]"

section \<open>Facts about dicts\<close>

lemma map_of_fold_update:
  "map_of (fold (\<lambda>(k, v) d. AList.update k v d) kvs d) = map_of d ++ map_of (rev kvs)"
proof (induction kvs arbitrary: d)
  case Nil
  show ?case by simp
next
  case (Cons kv kvs)
  obtain k v where kv: "kv = (k, v)" by (cases kv)
  show ?case
    by (simp add: kv Cons.IH update_conv' fun_eq_iff map_add_def split: option.splits)
qed

lemma dict_map_of: "map_of (dict kvs) = map_of (rev kvs)"
  by (simp add: dict_def map_of_fold_update)

lemma distinct_fold_update:
  "distinct (map fst d) \<Longrightarrow> distinct (map fst (fold (\<lambda>(k, v) d. AList.update k v d) kvs d))"
  by (induction kvs arbitrary: d) (auto simp: distinct_update)

lemma dict_distinct: "distinct (map fst (dict kvs))"
  by (simp add: dict_def distinct_fold_update)

lemma dict_keys: "fst ` set (dict kvs) = fst ` set kvs"
proof -
  have "dom (map_of (dict kvs)) = dom (map_of (rev kvs))"
    by (simp add: dict_map_of)
  then show ?thesis
    by (simp add: dom_map_of_conv_image_fst)
qed

lemma zip_keys: "fst ` set (zip xs ys) = set (take (length ys) xs)"
proof (induction xs arbitrary: ys)
  case Nil
  show ?case by simp
next
  case (Cons x xs)
  show ?case by (cases ys) (simp_all add: Cons.IH)
qed

lemma zip_take_right: "length xs \<le> n \<Longrightarrow> zip xs (take n ys) = zip xs ys"
proof (induction xs arbitrary: ys n)
  case Nil
  show ?case by simp
next
  case (Cons x xs)
  then show ?case by (cases ys; cases n) simp_all
qed

lemma map_of_rev_zip_last:
  assumes "i < length xs" "i < length ys" "\<forall>j. i < j \<and> j < length xs \<and> j < length ys \<longrightarrow> xs ! j \<noteq> xs ! i"
  shows "map_of (rev (zip xs ys)) (xs ! i) = Some (ys ! i)"
  using assms
proof (induction xs arbitrary: ys i)
  case Nil
  then show ?case by simp
next
  case (Cons x xs)
  then obtain y ys' where ys: "ys = y # ys'" by (cases ys) auto
  show ?case
  proof (cases i)
    case 0
    have "x \<notin> fst ` set (zip xs ys')"
    proof
      assume "x \<in> fst ` set (zip xs ys')"
      then obtain p where p: "p \<in> set (zip xs ys')" "fst p = x" by auto
      then obtain j where j: "j < length (zip xs ys')" "zip xs ys' ! j = p"
        by (auto simp: in_set_conv_nth)
      then have "xs ! j = x" "j < length xs" "j < length ys'" using p by auto
      with Cons.prems(3)[rule_format, of "Suc j"] 0 ys show False by auto
    qed
    then have "map_of (rev (zip xs ys')) x = None"
      by (simp add: map_of_eq_None_iff)
    with 0 ys show ?thesis by (simp add: map_add_def)
  next
    case (Suc k)
    have "map_of (rev (zip xs ys')) (xs ! k) = Some (ys' ! k)"
    proof (rule Cons.IH)
      show "k < length xs" using Cons.prems(1) Suc by simp
      show "k < length ys'" using Cons.prems(2) Suc ys by simp
      show "\<forall>j. k < j \<and> j < length xs \<and> j < length ys' \<longrightarrow> xs ! j \<noteq> xs ! k"
      proof (intro allI impI)
        fix j assume "k < j \<and> j < length xs \<and> j < length ys'"
        with Cons.prems(3)[rule_format, of "Suc j"] Suc ys show "xs ! j \<noteq> xs ! k" by auto
      qed
    qed
    with Suc ys show ?thesis by (simp add: map_add_def)
  qed
qed

lemma iter_filter: "iter (Some tg) e = filter (\<lambda>x. tag x = tg) (iter None e)"
proof (induction e)
  case (Element t x cs)
  have "concat (map (iter (Some tg)) cs) = concat (map (\<lambda>c. filter (\<lambda>x. tag x = tg) (iter None c)) cs)"
    using Element by (induction cs) auto
  then show ?case by (auto simp: filter_concat comp_def)
qed

lemma findall_descendant:
  "findall [Descendant tg] root = filter (\<lambda>x. tag x = tg) (tl (iter None root))"
proof -
  have "iter (Some tg) = (\<lambda>e. filter (\<lambda>x. tag x = tg) (iter None e))"
    by (rule ext) (rule iter_filter)
  then show ?thesis
    by (cases root) (simp add: findall_def iterfind_def filter_concat comp_def)
qed

lemma agents_loop_acc:
  "agents_loop columns row_nodes agents =
     agents @ map (\<lambda>v. dict (zip columns (data_texts v)))
                (List.map_filter (find_first [Child ''values'']) row_nodes)"
  by (induction row_nodes arbitrary: agents) (auto simp: List.map_filter_simps split: option.splits)

lemma length_dict_zip:
  "length columns \<le> length vals \<Longrightarrow> length (dict (zip columns vals)) = card (set columns)"
proof -
  assume le: "length columns \<le> length vals"
  have "length (dict (zip columns vals)) = length (map fst (dict (zip columns vals)))"
    by simp
  also have "\<dots> = card (set (map fst (dict (zip columns vals))))"
    by (simp only: distinct_card [OF dict_distinct])
  also have "\<dots> = card (set columns)"
    using le by (simp add: dict_keys zip_keys)
  finally show ?thesis .
qed

section \<open>Facts about the element paths\<close>

lemma findall_rows: "findall [Descendant ''rows''] root = row_elements root"
  by (simp add: findall_descendant row_elements_def descendants_def)

lemma iterfind_columns_values:
  "iterfind [Descendant c, Child v] root =
     concat (map (\<lambda>e. filter (\<lambda>x. tag x = v) (children e))
               (filter (\<lambda>x. tag x = c) (descendants root)))"
proof -
  have "select (Descendant c) [root] = findall [Descendant c] root"
    by (simp add: findall_def iterfind_def)
  then show ?thesis
    by (simp add: iterfind_def findall_descendant descendants_def)
qed

lemma find_columns_None:
  "find_first [Descendant ''columns'', Child ''values''] root = None
     \<longleftrightarrow> \<not> has_columns_declaration root"
proof -
  have "find_first [Descendant ''columns'', Child ''values''] root = None
          \<longleftrightarrow> iterfind [Descendant ''columns'', Child ''values''] root = []"
    by (simp add: find_first_def split: list.splits)
  also have "\<dots> \<longleftrightarrow> \<not> has_columns_declaration root"
    by (auto simp: iterfind_columns_values has_columns_declaration_def filter_empty_conv)
  finally show ?thesis .
qed

section \<open>The parser of the statistics response\<close>

text \<open>
  C5.  A well-formed response in which no \<open>columns\<close> element has a \<open>values\<close> child is
  answered with the error \<open>No columns found in response\<close> and no records, whatever
  rows it holds.  A well-formed response that declares its columns and has no row
  element is answered with the empty list of records and no error.
\<close>

theorem parse_columns_required:
  "(fromstring body = Inr parsed \<and> \<not> has_columns_declaration (strip_tags parsed)
      \<longrightarrow> parse_agent_states fromstring body = Inr (None, Some ''No columns found in response''))
   \<and> (fromstring body = Inr parsed \<and> has_columns_declaration (strip_tags parsed)
        \<and> row_elements (strip_tags parsed) = []
      \<longrightarrow> parse_agent_states fromstring body = Inr (Some [], None))"
proof (intro conjI impI)
  assume a: "fromstring body = Inr parsed \<and> \<not> has_columns_declaration (strip_tags parsed)"
  then have "find_first [Descendant ''columns'', Child ''values''] (strip_tags parsed) = None"
    by (simp add: find_columns_None)
  with a show "parse_agent_states fromstring body = Inr (None, Some ''No columns found in response'')"
    by (simp add: parse_agent_states_def Let_def)
next
  assume a: "fromstring body = Inr parsed \<and> has_columns_declaration (strip_tags parsed)
        \<and> row_elements (strip_tags parsed) = []"
  then have "find_first [Descendant ''columns'', Child ''values''] (strip_tags parsed) \<noteq> None"
    by (simp add: find_columns_None)
  then obtain cn where "find_first [Descendant ''columns'', Child ''values''] (strip_tags parsed) = Some cn"
    by auto
  with a show "parse_agent_states fromstring body = Inr (Some [], None)"
    by (simp add: parse_agent_states_def Let_def findall_rows)
qed

theorem parse_columns_required_witness:
  "parse_agent_states sample_fromstring body_no_columns
     = Inr (None, Some ''No columns found in response'')
   \<and> row_elements (strip_tags doc_no_columns) \<noteq> []
   \<and> parse_agent_states sample_fromstring body_no_rows = Inr (Some [], None)"
proof -
  have p1: "sample_fromstring body_no_columns = Inr doc_no_columns"
    by code_simp
  have n1: "\<not> has_columns_declaration (strip_tags doc_no_columns)"
    by code_simp
  have r1: "row_elements (strip_tags doc_no_columns) \<noteq> []"
    by code_simp
  have p2: "sample_fromstring body_no_rows = Inr doc_no_rows"
    by code_simp
  have c2: "has_columns_declaration (strip_tags doc_no_rows)"
    by code_simp
  have r2: "row_elements (strip_tags doc_no_rows) = []"
    by code_simp
  from parse_columns_required [of sample_fromstring body_no_columns doc_no_columns] p1 n1
  have "parse_agent_states sample_fromstring body_no_columns
          = Inr (None, Some ''No columns found in response'')"
    by blast
  moreover
  from parse_columns_required [of sample_fromstring body_no_rows doc_no_rows] p2 c2 r2
  have "parse_agent_states sample_fromstring body_no_rows = Inr (Some [], None)"
    by blast
  ultimately show ?thesis using r1 by blast
qed

text \<open>
  C4.  For a well-formed response whose columns declaration is \<open>columns_node\<close>, the
  parser returns one record for each row element that has a \<open>values\<close> child, in the
  document order of the row elements; a row element without a \<open>values\<close> child gives
  no record.  The record of a row is the dict of its values zipped with the column
  names: its keys are the first columns, as many as the row has values, and a column
  that is not repeated later in that prefix is mapped to the value at its position.
\<close>

theorem parse_zips_rows_in_document_order:
  assumes "fromstring body = Inr parsed"
    and "find_first [Descendant ''columns'', Child ''values''] (strip_tags parsed) = Some columns_node"
  shows "parse_agent_states fromstring body =
           Inr (Some (map (\<lambda>v. dict (zip (data_texts columns_node) (data_texts v)))
                        (List.map_filter (find_first [Child ''values''])
                           (row_elements (strip_tags parsed)))), None)
         \<and> (\<forall>(columns :: string list) (vals :: string list).
               fst ` set (dict (zip columns vals)) = set (take (length vals) columns))
         \<and> (\<forall>(columns :: string list) (vals :: string list) i.
               i < length columns \<and> i < length vals
               \<and> (\<forall>j. i < j \<and> j < length columns \<and> j < length vals \<longrightarrow> columns ! j \<noteq> columns ! i)
               \<longrightarrow> get (dict (zip columns vals)) (columns ! i) = Some (vals ! i))"
proof (intro conjI allI impI)
  show "parse_agent_states fromstring body =
           Inr (Some (map (\<lambda>v. dict (zip (data_texts columns_node) (data_texts v)))
                        (List.map_filter (find_first [Child ''values''])
                           (row_elements (strip_tags parsed)))), None)"
    using assms by (simp add: parse_agent_states_def Let_def findall_rows agents_loop_acc)
next
  fix columns vals :: "string list"
  show "fst ` set (dict (zip columns vals)) = set (take (length vals) columns)"
    by (simp add: dict_keys zip_keys)
next
  fix columns vals :: "string list" and i
  assume "i < length columns \<and> i < length vals
    \<and> (\<forall>j. i < j \<and> j < length columns \<and> j < length vals \<longrightarrow> columns ! j \<noteq> columns ! i)"
  then show "get (dict (zip columns vals)) (columns ! i) = Some (vals ! i)"
    by (simp add: get_def dict_map_of map_of_rev_zip_last)
qed

theorem parse_zips_rows_in_document_order_witness:
  "parse_agent_states sample_fromstring body_agents =
     Inr (Some [[(''Username'', ''alice''), (''State'', ''Ready''),
                 (''State Since'', ''2024-01-15 10:00:00'')],
                [(''Username'', ''bob''), (''State'', ''Logged Out'')],
                [(''Username'', ''carol''), (''State'', ''On Call''), (''State Since'', [])]],
          None)"
proof -
  have p: "sample_fromstring body_agents = Inr doc_agents"
    by code_simp
  have c: "find_first [Descendant ''columns'', Child ''values''] (strip_tags doc_agents)
             = Some (Element ''values'' None
                       [Element ''data'' (Some ''Username'') [],
                        Element ''data'' (Some ''State'') [],
                        Element ''data'' (Some ''State Since'') []])"
    by code_simp
  have e: "map (\<lambda>v. dict (zip (data_texts (Element ''values'' None
                       [Element ''data'' (Some ''Username'') [],
                        Element ''data'' (Some ''State'') [],
                        Element ''data'' (Some ''State Since'') []])) (data_texts v)))
             (List.map_filter (find_first [Child ''values''])
                (row_elements (strip_tags doc_agents)))
           = [[(''Username'', ''alice''), (''State'', ''Ready''),
               (''State Since'', ''2024-01-15 10:00:00'')],
              [(''Username'', ''bob''), (''State'', ''Logged Out'')],
              [(''Username'', ''carol''), (''State'', ''On Call''), (''State Since'', [])]]"
    by code_simp
  from parse_zips_rows_in_document_order
         [where fromstring = sample_fromstring and body = body_agents and parsed = doc_agents,
          OF p c, THEN conjunct1]
  show ?thesis
    by (simp only: e)
qed

text \<open>
  C10.  A row with at least as many values as there are columns gives the record of
  its first values, one per column: the values beyond the last column are dropped, the
  keys of the record are exactly the column names, and the record has no more entries
  than there are columns.
\<close>

theorem excess_values_are_discarded:
  assumes "find_first [Child ''values''] row_node = Some values_node"
    and "length columns \<le> length (data_texts values_node)"
  shows "agents_loop columns [row_node] []
           = [dict (zip columns (take (length columns) (data_texts values_node)))]
         \<and> fst ` set (dict (zip columns (data_texts values_node))) = set columns
         \<and> length (dict (zip columns (data_texts values_node))) = card (set columns)"
  using assms by (simp add: zip_take_right dict_keys zip_keys length_dict_zip)

theorem excess_values_are_discarded_witness:
  "agents_loop [''Username'', ''State'', ''State Since'']
     [Element ''rows'' None
        [Element ''values'' None
           [Element ''data'' (Some ''carol'') [],
            Element ''data'' (Some ''On Call'') [],
            Element ''data'' None [],
            Element ''data'' (Some ''extra'') []]]] []
   = [[(''Username'', ''carol''), (''State'', ''On Call''), (''State Since'', [])]]"
proof -
  have f: "find_first [Child ''values'']
             (Element ''rows'' None
                [Element ''values'' None
                   [Element ''data'' (Some ''carol'') [],
                    Element ''data'' (Some ''On Call'') [],
                    Element ''data'' None [],
                    Element ''data'' (Some ''extra'') []]])
           = Some (Element ''values'' None
                   [Element ''data'' (Some ''carol'') [],
                    Element ''data'' (Some ''On Call'') [],
                    Element ''data'' None [],
                    Element ''data'' (Some ''extra'') []])"
    by code_simp
  have l: "length [''Username'', ''State'', ''State Since'']
             \<le> length (data_texts (Element ''values'' None
                   [Element ''data'' (Some ''carol'') [],
                    Element ''data'' (Some ''On Call'') [],
                    Element ''data'' None [],
                    Element ''data'' (Some ''extra'') []]))"
    by code_simp
  have d: "dict (zip [''Username'', ''State'', ''State Since'']
             (take (length [''Username'', ''State'', ''State Since''])
                (data_texts (Element ''values'' None
                   [Element ''data'' (Some ''carol'') [],
                    Element ''data'' (Some ''On Call'') [],
                    Element ''data'' None [],
                    Element ''data'' (Some ''extra'') []]))))
           = [(''Username'', ''carol''), (''State'', ''On Call''), (''State Since'', [])]"
    by code_simp
  from excess_values_are_discarded [OF f l, THEN conjunct1] show ?thesis
    by (simp only: d)
qed

section \<open>The poll endpoint\<close>

text \<open>
  C9.  When the call that sets the session parameters is answered with a status other
  than 200, the invocation replies at once with status 500, \<open>ok\<close> false and the message
  \<open>Failed to set Five9 session\<close>.  The environment that records its requests has seen
  that one call and nothing else: no statistics call, no insert and no delete.
\<close>

theorem session_failure_stops_poll:
  assumes "http (Five9Call ''setSessionParameters'' session_body) w = (Inr resp, w')"
    and "status_code resp \<noteq> 200"
  shows "poll http fromstring clk w
           = (Inr ([(''ok'', JBool False), (''error'', JStr ''Failed to set Five9 session'')], 500), w')
         \<and> poll (logged http) fromstring clk (w, [])
           = (Inr ([(''ok'', JBool False), (''error'', JStr ''Failed to set Five9 session'')], 500),
              (w', [Five9Call ''setSessionParameters'' session_body]))"
proof
  show "poll http fromstring clk w
           = (Inr ([(''ok'', JBool False), (''error'', JStr ''Failed to set Five9 session'')], 500), w')"
    using assms by (simp add: poll_def five9_set_session_def five9_soap_call_def failure_def)
  have "logged http (Five9Call ''setSessionParameters'' session_body) (w, [])
          = (Inr resp, (w', [] @ [Five9Call ''setSessionParameters'' session_body]))"
    using assms(1) by (simp add: logged_def)
  then have "five9_set_session (logged http) (w, [])
          = (Inr False, (w', [Five9Call ''setSessionParameters'' session_body]))"
    using assms(2) by (simp add: five9_set_session_def five9_soap_call_def)
  then show "poll (logged http) fromstring clk (w, [])
           = (Inr ([(''ok'', JBool False), (''error'', JStr ''Failed to set Five9 session'')], 500),
              (w', [Five9Call ''setSessionParameters'' session_body]))"
    by (simp add: poll_def failure_def)
qed


theorem session_failure_stops_poll_witness:
  "poll (logged env_session_fails) sample_fromstring sample_clock ((), [])
     = (Inr ([(''ok'', JBool False), (''error'', JStr ''Failed to set Five9 session'')], 500),
        ((), [Five9Call ''setSessionParameters'' session_body]))"
proof -
  have h: "env_session_fails (Five9Call ''setSessionParameters'' session_body) ()
             = (Inr \<lparr>status_code = 503, resp_text = ''Service Unavailable'',
                     json_len = Inl JSONDecodeError\<rparr>, ())"
    by (simp add: env_session_fails_def scripted_def answer_def)
  have n: "status_code \<lparr>status_code = 503, resp_text = ''Service Unavailable'',
                        json_len = Inl JSONDecodeError\<rparr> \<noteq> 200"
    by simp
  from session_failure_stops_poll
         [where http = env_session_fails and w = "()" and fromstring = sample_fromstring
            and clk = sample_clock, OF h n, THEN conjunct2]
  show ?thesis .
qed

text \<open>
  C1 (as the code has it).  When the session call, the fetch and the write have
  succeeded and the delete is answered with a status other than 200, the invocation
  replies with status 200, \<open>ok\<close> true and \<open>purged\<close> 0.  The reply has the six members
  below and no other: nothing in it tells of the failed purge.
\<close>

theorem purge_failure_is_not_fatal:
  assumes "http (Five9Call ''setSessionParameters'' session_body) w = (Inr session_resp, w1)"
    and "status_code session_resp = 200"
    and "five9_get_agent_states http fromstring w1 = (Inr (Some agents, None), w2)"
    and "write_to_supabase http agents (now_snapshot clk) w2 = (Inr (count, None), w3)"
    and "http (DeleteOlder (now_purge clk - hours48)) w3 = (Inr del_resp, w4)"
    and "status_code del_resp \<noteq> 200"
  shows "poll http fromstring clk w =
           (Inr ([(''ok'', JBool True),
                  (''agents_total'', JInt (int (length agents))),
                  (''agents_written'', JInt count),
                  (''purged'', JInt 0),
                  (''snapshot_ts'', JTime (now_snapshot clk)),
                  (''elapsed_sec'', JElapsed (time_end clk - time_start clk))], 200), w4)"
proof -
  have s: "five9_set_session http w = (Inr True, w1)"
    using assms(1,2) by (simp add: five9_set_session_def five9_soap_call_def)
  have p: "purge_and_report http clk agents count w3 =
           (Inr ([(''ok'', JBool True),
                  (''agents_total'', JInt (int (length agents))),
                  (''agents_written'', JInt count),
                  (''purged'', JInt 0),
                  (''snapshot_ts'', JTime (now_snapshot clk)),
                  (''elapsed_sec'', JElapsed (time_end clk - time_start clk))], 200), w4)"
    using assms(5,6) by (simp add: purge_and_report_def)
  show ?thesis
    by (simp add: poll_def s assms(3,4) truthy_def p)
qed

theorem purge_failure_is_not_fatal_witness:
  "poll env_purge_fails sample_fromstring sample_clock () =
     (Inr ([(''ok'', JBool True), (''agents_total'', JInt 3), (''agents_written'', JInt 2),
            (''purged'', JInt 0), (''snapshot_ts'', JTime 1700000000100000),
            (''elapsed_sec'', JElapsed 1900000)], 200), ())"
proof -
  have h1: "env_purge_fails (Five9Call ''setSessionParameters'' session_body) ()
              = (Inr \<lparr>status_code = 200, resp_text = [], json_len = Inl JSONDecodeError\<rparr>, ())"
    by (simp add: env_purge_fails_def scripted_def answer_def)
  have h2: "status_code \<lparr>status_code = 200, resp_text = [], json_len = Inl JSONDecodeError\<rparr> = 200"
    by simp
  have h3: "five9_get_agent_states env_purge_fails sample_fromstring ()
              = (Inr (Some sample_agents, None), ())"
    by code_simp
  have h4: "write_to_supabase env_purge_fails sample_agents (now_snapshot sample_clock) ()
              = (Inr (2, None), ())"
    by code_simp
  have h5: "env_purge_fails (DeleteOlder (now_purge sample_clock - hours48)) ()
              = (Inr \<lparr>status_code = 500, resp_text = ''{\"message\":\"permission denied\"}'',
                      json_len = Inl JSONDecodeError\<rparr>, ())"
    by (simp add: env_purge_fails_def scripted_def answer_def)
  have h6: "status_code \<lparr>status_code = 500, resp_text = ''{\"message\":\"permission denied\"}'',
                      json_len = Inl JSONDecodeError\<rparr> \<noteq> 200"
    by simp
  have e: "int (length sample_agents) = 3" "now_snapshot sample_clock = 1700000000100000"
    "time_end sample_clock - time_start sample_clock = 1900000"
    by (simp_all add: sample_agents_def sample_clock_def)
  from purge_failure_is_not_fatal
         [where http = env_purge_fails and w = "()" and fromstring = sample_fromstring
            and clk = sample_clock, OF h1 h2 h3 h4 h5 h6]
  show ?thesis
    by (simp only: e)
qed

text \<open>
  C1 as stated fails: with the delete refused with status 500 and the body
  \<open>{"message":"permission denied"}\<close>, the reply has no \<open>error\<close> member and is the
  very reply of an invocation whose delete succeeded and removed nothing.
\<close>

theorem purge_error_is_not_attached:
  "fst (poll env_purge_fails sample_fromstring sample_clock ()) =
     Inr ([(''ok'', JBool True), (''agents_total'', JInt 3), (''agents_written'', JInt 2),
           (''purged'', JInt 0), (''snapshot_ts'', JTime 1700000000100000),
           (''elapsed_sec'', JElapsed 1900000)], 200)
   \<and> fst (poll env_purge_fails sample_fromstring sample_clock ())
       = fst (poll env_purge_empty sample_fromstring sample_clock ())"
  by code_simp

text \<open>
  C2.  The statistics call is answered with status 200 and the body
  \<open>Service Unavailable\<close>, which is not XML: \<open>ParseError\<close> leaves \<open>poll\<close> as an
  exception; no reply with \<open>ok\<close> and \<open>error\<close> is built.
\<close>

theorem malformed_body_raises_out_of_poll:
  "fst (poll env_not_xml sample_fromstring sample_clock ()) = Inl ParseError"
  by code_simp

lemma parse_error_propagates:
  assumes "http (Five9Call ''setSessionParameters'' session_body) w = (Inr session_resp, w1)"
    and "status_code session_resp = 200"
    and "http (Five9Call ''getStatistics'' ''<statisticType>AgentState</statisticType>'') w1
           = (Inr resp, w2)"
    and "status_code resp = 200"
    and "fromstring (resp_text resp) = Inl e"
  shows "poll http fromstring clk w = (Inl e, w2)"
proof -
  have s: "five9_set_session http w = (Inr True, w1)"
    using assms(1,2) by (simp add: five9_set_session_def five9_soap_call_def)
  have g: "five9_get_agent_states http fromstring w1 = (Inl e, w2)"
    using assms(3,4,5)
    by (simp add: five9_get_agent_states_def five9_soap_call_def parse_agent_states_def)
  show ?thesis
    by (simp add: poll_def s g)
qed

lemma rows_loop_snapshot_ts:
  "rows_loop ts agents acc = Inr rows \<Longrightarrow> \<forall>r \<in> set acc. snapshot_ts r = ts
     \<Longrightarrow> \<forall>r \<in> set rows. snapshot_ts r = ts"
proof (induction agents arbitrary: acc)
  case Nil
  then show ?case by simp
next
  case (Cons a agents)
  show ?case
  proof (cases "get a ''State'' = Some ''Logged Out''")
    case True
    with Cons.prems have "rows_loop ts agents acc = Inr rows" by simp
    then show ?thesis using Cons.prems(2) by (rule Cons.IH)
  next
    case False
    with Cons.prems(1) obtain utc where
      u: "to_utc FIVE9_TZ_OFFSET_HOURS (get_default a ''State Since'' []) = Inr utc"
      by (auto split: sum.splits)
    define row where "row = \<lparr>snapshot_ts = ts,
                   username = get_default a ''Username'' [],
                   full_name = get_default a ''Full Name'' [],
                   state = get_default a ''State'' [],
                   reason_code = get_default a ''Reason Code'' [],
                   state_since = get_default a ''State Since'' [],
                   state_since_utc = utc,
                   state_duration = get_default a ''State Duration'' [],
                   campaign_name = get_default a ''Campaign Name'' [],
                   call_type = get_default a ''Call Type'' [],
                   media_availability = get_default a ''Media Availability'' []\<rparr>"
    have "rows_loop ts agents (acc @ [row]) = Inr rows"
      using Cons.prems(1) False u by (simp add: row_def)
    moreover have "\<forall>r \<in> set (acc @ [row]). snapshot_ts r = ts"
      using Cons.prems(2) by (simp add: row_def)
    ultimately show ?thesis by (rule Cons.IH)
  qed
qed

lemma write_log:
  assumes "write_to_supabase (logged http) agents ts (w, log) = (res, (w', log'))"
  shows "log' = log \<or> (\<exists>rows. log' = log @ [InsertRows rows] \<and> (\<forall>r \<in> set rows. snapshot_ts r = ts))"
proof (cases "rows_loop ts agents []")
  case (Inl e)
  with assms show ?thesis by (simp add: write_to_supabase_def)
next
  case (Inr rows)
  then have st: "\<forall>r \<in> set rows. snapshot_ts r = ts"
    by (rule rows_loop_snapshot_ts) simp
  show ?thesis
  proof (cases "rows = []")
    case True
    with assms Inr show ?thesis by (simp add: write_to_supabase_def)
  next
    case False
    obtain r w2 where h: "http (InsertRows rows) w = (r, w2)" by (cases "http (InsertRows rows) w")
    then have "logged http (InsertRows rows) (w, log) = (r, (w2, log @ [InsertRows rows]))"
      by (simp add: logged_def)
    with assms Inr False have "log' = log @ [InsertRows rows]"
      by (auto simp: write_to_supabase_def split: sum.splits if_splits)
    with st show ?thesis by blast
  qed
qed

lemma session_log:
  assumes "five9_set_session (logged http) (w, log) = (res, (w', log'))"
  shows "log' = log @ [Five9Call ''setSessionParameters'' session_body]"
proof -
  obtain r w2 where h: "http (Five9Call ''setSessionParameters'' session_body) w = (r, w2)"
    by (cases "http (Five9Call ''setSessionParameters'' session_body) w")
  then have "logged http (Five9Call ''setSessionParameters'' session_body) (w, log)
               = (r, (w2, log @ [Five9Call ''setSessionParameters'' session_body]))"
    by (simp add: logged_def)
  with assms show ?thesis
    by (auto simp: five9_set_session_def five9_soap_call_def split: sum.splits)
qed

lemma fetch_log:
  assumes "five9_get_agent_states (logged http) fromstring (w, log) = (res, (w', log'))"
  shows "log' = log @ [Five9Call ''getStatistics'' ''<statisticType>AgentState</statisticType>'']"
proof -
  obtain r w2 where h: "http (Five9Call ''getStatistics'' ''<statisticType>AgentState</statisticType>'') w = (r, w2)"
    by (cases "http (Five9Call ''getStatistics'' ''<statisticType>AgentState</statisticType>'') w")
  then have "logged http (Five9Call ''getStatistics'' ''<statisticType>AgentState</statisticType>'') (w, log)
               = (r, (w2, log @ [Five9Call ''getStatistics'' ''<statisticType>AgentState</statisticType>'']))"
    by (simp add: logged_def)
  with assms show ?thesis
    by (auto simp: five9_get_agent_states_def five9_soap_call_def split: sum.splits if_splits)
qed

lemma purge_log:
  assumes "purge_and_report (logged http) clk agents count (w, log) = (res, (w', log'))"
  shows "log' = log @ [DeleteOlder (now_purge clk - hours48)]"
proof -
  obtain r w2 where h: "http (DeleteOlder (now_purge clk - hours48)) w = (r, w2)"
    by (cases "http (DeleteOlder (now_purge clk - hours48)) w")
  then have "logged http (DeleteOlder (now_purge clk - hours48)) (w, log)
               = (r, (w2, log @ [DeleteOlder (now_purge clk - hours48)]))"
    by (simp add: logged_def)
  with assms show ?thesis
    by (auto simp: purge_and_report_def split: sum.splits if_splits)
qed

lemma poll_inserts:
  assumes "poll (logged http) fromstring clk (w, []) = (res, (w', log))"
    and "InsertRows rows \<in> set log"
  shows "\<forall>r \<in> set rows. snapshot_ts r = now_snapshot clk"
proof -
  obtain r1 w1 l1 where s: "five9_set_session (logged http) (w, []) = (r1, (w1, l1))"
    by (metis surj_pair)
  have l1: "l1 = [Five9Call ''setSessionParameters'' session_body]"
    using session_log [OF s] by simp
  obtain r2 w2 l2 where f: "five9_get_agent_states (logged http) fromstring (w1, l1) = (r2, (w2, l2))"
    by (metis surj_pair)
  have l2: "l2 = l1 @ [Five9Call ''getStatistics'' ''<statisticType>AgentState</statisticType>'']"
    using fetch_log [OF f] .
  show ?thesis
  proof (cases "\<exists>agents m. r1 = Inr True \<and> r2 = Inr (Some agents, m) \<and> \<not> truthy m")
    case False
    then have "log = l1 \<or> log = l2"
      using assms(1) s f
      by (auto simp: poll_def split: sum.splits if_splits option.splits prod.splits)
    with assms(2) l1 l2 show ?thesis by auto
  next
    case True
    then obtain agents m where a: "r1 = Inr True" "r2 = Inr (Some agents, m)" "\<not> truthy m"
      by auto
    obtain r3 w3 l3 where wr: "write_to_supabase (logged http) agents (now_snapshot clk) (w2, l2) = (r3, (w3, l3))"
      by (metis surj_pair)
    from write_log [OF wr]
    have l3: "l3 = l2 \<or> (\<exists>rows. l3 = l2 @ [InsertRows rows] \<and> (\<forall>r \<in> set rows. snapshot_ts r = now_snapshot clk))" .
    have "log = l3 \<or> (\<exists>x. log = l3 @ [DeleteOlder x])"
    proof (cases "\<exists>count m'. r3 = Inr (count, m') \<and> \<not> truthy m'")
      case False
      then have "log = l3"
        using assms(1) s f wr a
        by (auto simp: poll_def split: sum.splits if_splits option.splits prod.splits)
      then show ?thesis by simp
    next
      case True
      then obtain count m' where c: "r3 = Inr (count, m')" "\<not> truthy m'" by auto
      obtain r4 w4 l4 where p: "purge_and_report (logged http) clk agents count (w3, l3) = (r4, (w4, l4))"
        by (metis surj_pair)
      have "log = l4"
        using assms(1) s f wr a c p by (simp add: poll_def)
      with purge_log [OF p] show ?thesis by simp
    qed
    with assms(2) l1 l2 l3 show ?thesis by auto
  qed
qed

lemma store_write:
  assumes "rows_loop ts agents [] = Inr rows"
  shows "write_to_supabase (store five9) agents ts table = (Inr (int (length rows), None), table @ rows)"
  using assms by (cases "rows = []") (simp_all add: write_to_supabase_def store_def)

lemma store_purge:
  "purge_and_report (store five9) clk agents count table =
     (Inr ([(''ok'', JBool True),
            (''agents_total'', JInt (int (length agents))),
            (''agents_written'', JInt count),
            (''purged'', JInt (int (length (filter (\<lambda>r. snapshot_ts r < now_purge clk - hours48) table)))),
            (''snapshot_ts'', JTime (now_snapshot clk)),
            (''elapsed_sec'', JElapsed (time_end clk - time_start clk))], 200),
      filter (\<lambda>r. \<not> snapshot_ts r < now_purge clk - hours48) table)"
  by (simp add: purge_and_report_def store_def)


text \<open>
  C7.  Whatever the environment answers, every row of every insert that one invocation
  sends carries the \<open>snapshot_ts\<close> read once at the start of that invocation.
\<close>

theorem rows_of_one_poll_share_snapshot_ts:
  assumes "poll (logged http) fromstring clk (w, []) = (res, (w', log))"
    and "InsertRows rows \<in> set log"
    and "r \<in> set rows"
  shows "snapshot_ts r = now_snapshot clk"
  using poll_inserts [OF assms(1,2)] assms(3) by blast

theorem rows_of_one_poll_share_snapshot_ts_witness:
  "snd (snd (poll (logged env_purge_fails) sample_fromstring sample_clock ((), []))) ! 2
     = InsertRows
         [\<lparr>snapshot_ts = 1700000000100000, username = ''alice'', full_name = [],
            state = ''Ready'', reason_code = [], state_since = ''2024-01-15 10:00:00'',
            state_since_utc = ''2024-01-15 18:00:00'', state_duration = [],
            campaign_name = [], call_type = [], media_availability = []\<rparr>,
          \<lparr>snapshot_ts = 1700000000100000, username = ''carol'', full_name = [],
            state = ''On Call'', reason_code = [], state_since = [],
            state_since_utc = [], state_duration = [], campaign_name = [],
            call_type = [], media_availability = []\<rparr>]
   \<and> snapshot_ts
         \<lparr>snapshot_ts = 1700000000100000, username = ''carol'', full_name = [],
            state = ''On Call'', reason_code = [], state_since = [],
            state_since_utc = [], state_duration = [], campaign_name = [],
            call_type = [], media_availability = []\<rparr>
       = now_snapshot sample_clock"
proof -
  define rows where "rows =
         [\<lparr>snapshot_ts = 1700000000100000, username = ''alice'', full_name = [],
            state = ''Ready'', reason_code = [], state_since = ''2024-01-15 10:00:00'',
            state_since_utc = ''2024-01-15 18:00:00'', state_duration = [],
            campaign_name = [], call_type = [], media_availability = []\<rparr>,
          \<lparr>snapshot_ts = 1700000000100000, username = ''carol'', full_name = [],
            state = ''On Call'', reason_code = [], state_since = [],
            state_since_utc = [], state_duration = [], campaign_name = [],
            call_type = [], media_availability = []\<rparr>]"
  have run: "poll (logged env_purge_fails) sample_fromstring sample_clock ((), [])
          = (Inr ([(''ok'', JBool True), (''agents_total'', JInt 3), (''agents_written'', JInt 2),
                   (''purged'', JInt 0), (''snapshot_ts'', JTime 1700000000100000),
                   (''elapsed_sec'', JElapsed 1900000)], 200),
             ((), [Five9Call ''setSessionParameters'' session_body,
                   Five9Call ''getStatistics'' ''<statisticType>AgentState</statisticType>'',
                   InsertRows rows,
                   DeleteOlder 1699827201500000]))"
    unfolding rows_def by code_simp
  have m: "InsertRows rows \<in> set [Five9Call ''setSessionParameters'' session_body,
                   Five9Call ''getStatistics'' ''<statisticType>AgentState</statisticType>'',
                   InsertRows rows,
                   DeleteOlder 1699827201500000]"
    by simp
  have r: "\<lparr>snapshot_ts = 1700000000100000, username = ''carol'', full_name = [],
            state = ''On Call'', reason_code = [], state_since = [],
            state_since_utc = [], state_duration = [], campaign_name = [],
            call_type = [], media_availability = []\<rparr> \<in> set rows"
    by (simp add: rows_def)
  from rows_of_one_poll_share_snapshot_ts [OF run m r]
  show ?thesis
    by (simp add: run rows_def)
qed

text \<open>
  C8.  With the store of section 6 as environment, an invocation whose session call
  and fetch succeed, whose rows are \<open>rows\<close>, replies with status 200 and leaves in the
  table exactly the rows, old and new, whose \<open>snapshot_ts\<close> is not less than the purge
  reading of the clock minus 48 hours: a row exactly 48 hours old stays, every row
  strictly older is deleted, and \<open>purged\<close> is the number of rows deleted.
\<close>

theorem purge_deletes_strictly_older:
  assumes "service ''setSessionParameters'' session_body = Inr session_resp"
    and "status_code session_resp = 200"
    and "service ''getStatistics'' ''<statisticType>AgentState</statisticType>'' = Inr resp"
    and "status_code resp = 200"
    and "parse_agent_states fromstring (resp_text resp) = Inr (Some agents, None)"
    and "rows_loop (now_snapshot clk) agents [] = Inr rows"
  shows "poll (store service) fromstring clk table =
           (Inr ([(''ok'', JBool True),
                  (''agents_total'', JInt (int (length agents))),
                  (''agents_written'', JInt (int (length rows))),
                  (''purged'', JInt (int (length
                      (filter (\<lambda>r. snapshot_ts r < now_purge clk - hours48) (table @ rows))))),
                  (''snapshot_ts'', JTime (now_snapshot clk)),
                  (''elapsed_sec'', JElapsed (time_end clk - time_start clk))], 200),
            filter (\<lambda>r. \<not> snapshot_ts r < now_purge clk - hours48) (table @ rows))
         \<and> set (filter (\<lambda>r. \<not> snapshot_ts r < now_purge clk - hours48) (table @ rows))
             = {r. (r \<in> set table \<or> r \<in> set rows) \<and> now_purge clk - hours48 \<le> snapshot_ts r}"
proof -
  have s: "five9_set_session (store service) table = (Inr True, table)"
    using assms(1,2) by (simp add: five9_set_session_def five9_soap_call_def store_def)
  have g: "five9_get_agent_states (store service) fromstring table = (Inr (Some agents, None), table)"
    using assms(3,4,5) by (simp add: five9_get_agent_states_def five9_soap_call_def store_def)
  have p: "poll (store service) fromstring clk table =
             purge_and_report (store service) clk agents (int (length rows)) (table @ rows)"
    by (simp add: poll_def s g store_write [OF assms(6)] truthy_def)
  have st: "set (filter (\<lambda>r. \<not> snapshot_ts r < now_purge clk - hours48) (table @ rows))
             = {r. (r \<in> set table \<or> r \<in> set rows) \<and> now_purge clk - hours48 \<le> snapshot_ts r}"
    by auto
  show ?thesis
    using st by (simp only: p store_purge simp_thms)
qed

theorem purge_deletes_strictly_older_witness:
  "poll (store sample_five9) sample_fromstring sample_clock
     [stored_row (now_purge sample_clock - 49 * 3600000000) ''old49'',
      stored_row (now_purge sample_clock - 48 * 3600000000) ''old48'',
      stored_row (now_purge sample_clock - 47 * 3600000000) ''old47'']
   = (Inr ([(''ok'', JBool True), (''agents_total'', JInt 3), (''agents_written'', JInt 2),
            (''purged'', JInt 1), (''snapshot_ts'', JTime 1700000000100000),
            (''elapsed_sec'', JElapsed 1900000)], 200),
      [stored_row (now_purge sample_clock - 48 * 3600000000) ''old48'',
       stored_row (now_purge sample_clock - 47 * 3600000000) ''old47'',
       \<lparr>snapshot_ts = 1700000000100000, username = ''alice'', full_name = [],
         state = ''Ready'', reason_code = [], state_since = ''2024-01-15 10:00:00'',
         state_since_utc = ''2024-01-15 18:00:00'', state_duration = [],
         campaign_name = [], call_type = [], media_availability = []\<rparr>,
       \<lparr>snapshot_ts = 1700000000100000, username = ''carol'', full_name = [],
         state = ''On Call'', reason_code = [], state_since = [],
         state_since_utc = [], state_duration = [], campaign_name = [],
         call_type = [], media_availability = []\<rparr>])"
proof -
  define rows where "rows =
         [\<lparr>snapshot_ts = 1700000000100000, username = ''alice'', full_name = [],
            state = ''Ready'', reason_code = [], state_since = ''2024-01-15 10:00:00'',
            state_since_utc = ''2024-01-15 18:00:00'', state_duration = [],
            campaign_name = [], call_type = [], media_availability = []\<rparr>,
          \<lparr>snapshot_ts = 1700000000100000, username = ''carol'', full_name = [],
            state = ''On Call'', reason_code = [], state_since = [],
            state_since_utc = [], state_duration = [], campaign_name = [],
            call_type = [], media_availability = []\<rparr>]"
  define table where "table =
     [stored_row (now_purge sample_clock - 49 * 3600000000) ''old49'',
      stored_row (now_purge sample_clock - 48 * 3600000000) ''old48'',
      stored_row (now_purge sample_clock - 47 * 3600000000) ''old47'']"
  have h1: "sample_five9 ''setSessionParameters'' session_body
              = Inr \<lparr>status_code = 200, resp_text = [], json_len = Inl JSONDecodeError\<rparr>"
    by (simp add: sample_five9_def answer_def)
  have h2: "status_code \<lparr>status_code = 200, resp_text = [], json_len = Inl JSONDecodeError\<rparr> = 200"
    by simp
  have h3: "sample_five9 ''getStatistics'' ''<statisticType>AgentState</statisticType>''
              = Inr \<lparr>status_code = 200, resp_text = body_agents, json_len = Inl JSONDecodeError\<rparr>"
    by (simp add: sample_five9_def answer_def)
  have h4: "status_code \<lparr>status_code = 200, resp_text = body_agents,
                         json_len = Inl JSONDecodeError\<rparr> = 200"
    by simp
  have h5: "parse_agent_states sample_fromstring
              (resp_text \<lparr>status_code = 200, resp_text = body_agents, json_len = Inl JSONDecodeError\<rparr>)
            = Inr (Some sample_agents, None)"
    by code_simp
  have h6: "rows_loop (now_snapshot sample_clock) sample_agents [] = Inr rows"
    unfolding rows_def by code_simp
  have e1: "filter (\<lambda>r. \<not> snapshot_ts r < now_purge sample_clock - hours48) (table @ rows)
           = [stored_row (now_purge sample_clock - 48 * 3600000000) ''old48'',
              stored_row (now_purge sample_clock - 47 * 3600000000) ''old47''] @ rows"
    by (simp add: table_def rows_def stored_row_def sample_clock_def hours48_def)
  have e2: "int (length (filter (\<lambda>r. snapshot_ts r < now_purge sample_clock - hours48) (table @ rows))) = 1"
    by (simp add: table_def rows_def stored_row_def sample_clock_def hours48_def)
  have e3: "int (length sample_agents) = 3" "int (length rows) = 2"
    "now_snapshot sample_clock = 1700000000100000"
    "time_end sample_clock - time_start sample_clock = 1900000"
    by (simp_all add: sample_agents_def sample_clock_def rows_def)
  from purge_deletes_strictly_older
         [where service = sample_five9 and fromstring = sample_fromstring and clk = sample_clock
            and table = table, OF h1 h2 h3 h4 h5 h6, THEN conjunct1]
  have "poll (store sample_five9) sample_fromstring sample_clock table
          = (Inr ([(''ok'', JBool True), (''agents_total'', JInt 3), (''agents_written'', JInt 2),
            (''purged'', JInt 1), (''snapshot_ts'', JTime 1700000000100000),
            (''elapsed_sec'', JElapsed 1900000)], 200),
             [stored_row (now_purge sample_clock - 48 * 3600000000) ''old48'',
              stored_row (now_purge sample_clock - 47 * 3600000000) ''old47''] @ rows)"
    by (simp only: e1 e2 e3)
  then show ?thesis
    by (simp add: table_def rows_def)
qed

section \<open>The projection of records to rows\<close>

text \<open>
  The loop of \<open>write_to_supabase\<close> fails only with \<open>OverflowError\<close>, and only on a
  retained record that has a \<open>State Since\<close> field whose shifted time lies beyond the
  year 9999.  On every other input it returns one row for each record that is not
  excluded, in order, each field looked up with the empty string as default.
\<close>

lemma to_utc_raises_only_overflow: "to_utc offset raw = Inl e \<Longrightarrow> e = OverflowError"
  by (auto simp: to_utc_def sub_hours_def Let_def split: if_splits sum.splits value_error.splits prod.splits)

lemma to_utc_missing: "to_utc offset [] = Inr []"
  by (simp add: to_utc_def)

lemma rows_loop_projection:
  assumes "\<forall>a \<in> set agents. \<not> excluded a \<longrightarrow>
             to_utc FIVE9_TZ_OFFSET_HOURS (get_default a ''State Since'' []) \<noteq> Inl OverflowError"
  shows "rows_loop ts agents acc =
           Inr (acc @ map (\<lambda>a. projected ts a
                             (projr (to_utc FIVE9_TZ_OFFSET_HOURS (get_default a ''State Since'' []))))
                        (filter (\<lambda>a. \<not> excluded a) agents))"
  using assms
proof (induction agents arbitrary: acc)
  case Nil
  show ?case by simp
next
  case (Cons a agents)
  show ?case
  proof (cases "excluded a")
    case True
    then show ?thesis using Cons by (simp add: excluded_def)
  next
    case False
    with Cons.prems have "to_utc FIVE9_TZ_OFFSET_HOURS (get_default a ''State Since'' []) \<noteq> Inl OverflowError"
      by simp
    then obtain utc where u: "to_utc FIVE9_TZ_OFFSET_HOURS (get_default a ''State Since'' []) = Inr utc"
      by (cases "to_utc FIVE9_TZ_OFFSET_HOURS (get_default a ''State Since'' [])")
         (auto dest: to_utc_raises_only_overflow)
    have "rows_loop ts (a # agents) acc = rows_loop ts agents (acc @ [projected ts a utc])"
      using False u by (simp add: excluded_def projected_def)
    also have "\<dots> = Inr ((acc @ [projected ts a utc]) @ map (\<lambda>a. projected ts a
                             (projr (to_utc FIVE9_TZ_OFFSET_HOURS (get_default a ''State Since'' []))))
                        (filter (\<lambda>a. \<not> excluded a) agents))"
      using Cons.prems by (intro Cons.IH) simp
    finally show ?thesis using False u by simp
  qed
qed

lemma length_filter_not: "length (filter (\<lambda>a. \<not> P a) xs) = length xs - length (filter P xs)"
proof -
  have "length (filter P xs) + length (filter (\<lambda>a. \<not> P a) xs) = length xs"
    by (rule sum_length_filter_compl)
  then show ?thesis by simp
qed

lemma projection_without_overflow:
  assumes "\<forall>a \<in> set agents. \<not> excluded a \<longrightarrow>
             to_utc FIVE9_TZ_OFFSET_HOURS (get_default a ''State Since'' []) \<noteq> Inl OverflowError"
  shows "\<exists>rows. rows_loop ts agents [] = Inr rows
           \<and> length rows = length agents - length (filter excluded agents)
           \<and> list_all2 (\<lambda>a r. \<exists>utc. r = projected ts a utc) (filter (\<lambda>a. \<not> excluded a) agents) rows"
proof -
  let ?rows = "map (\<lambda>a. projected ts a
                             (projr (to_utc FIVE9_TZ_OFFSET_HOURS (get_default a ''State Since'' []))))
                        (filter (\<lambda>a. \<not> excluded a) agents)"
  have "rows_loop ts agents [] = Inr ?rows"
    using rows_loop_projection [OF assms, of ts "[]"] by simp
  moreover have "length ?rows = length agents - length (filter excluded agents)"
    by (simp add: length_filter_not)
  moreover have "list_all2 (\<lambda>a r. \<exists>utc. r = projected ts a utc) (filter (\<lambda>a. \<not> excluded a) agents) ?rows"
    by (auto simp: list_all2_conv_all_nth)
  ultimately show ?thesis by blast
qed

lemma rows_loop_overflow:
  "rows_loop ts agents acc = Inl e \<Longrightarrow>
     e = OverflowError \<and>
     (\<exists>a \<in> set agents. \<not> excluded a \<and> get a ''State Since'' \<noteq> None \<and>
        to_utc FIVE9_TZ_OFFSET_HOURS (get_default a ''State Since'' []) = Inl OverflowError)"
proof (induction agents arbitrary: acc)
  case Nil
  then show ?case by simp
next
  case (Cons a agents)
  show ?case
  proof (cases "excluded a")
    case True
    with Cons show ?thesis by (auto simp: excluded_def)
  next
    case False
    show ?thesis
    proof (cases "to_utc FIVE9_TZ_OFFSET_HOURS (get_default a ''State Since'' [])")
      case (Inl x)
      then have x: "x = OverflowError" by (rule to_utc_raises_only_overflow)
      have "get a ''State Since'' \<noteq> None"
      proof
        assume "get a ''State Since'' = None"
        then have "get_default a ''State Since'' [] = []"
          by (simp add: get_def get_default_def)
        with Inl show False by (simp add: to_utc_def)
      qed
      with Inl x False Cons.prems show ?thesis
        by (auto simp: excluded_def)
    next
      case (Inr utc)
      with False Cons.prems have "rows_loop ts agents (acc @ [projected ts a utc]) = Inl e"
        by (simp add: excluded_def projected_def)
      from Cons.IH [OF this] show ?thesis by auto
    qed
  qed
qed


text \<open>
  C6.  For the single record with \<open>State\<close> \<open>Ready\<close> and \<open>State Since\<close>
  \<open>9999-12-31 23:59:59\<close> the claim promises one output row.  The subtraction of line
  113 raises \<open>OverflowError\<close>, which the \<open>except ValueError\<close> clause of line 115 does
  not catch: the loop produces no rows and \<open>write_to_supabase\<close> raises.
\<close>

theorem sentinel_timestamp_aborts_projection:
  "length agents_sentinel - length (filter excluded agents_sentinel) = 1
   \<and> rows_loop (now_snapshot sample_clock) agents_sentinel [] = Inl OverflowError
   \<and> fst (write_to_supabase env_purge_empty agents_sentinel (now_snapshot sample_clock) ())
       = Inl OverflowError"
  by code_simp


section \<open>The calendar: ordinals and dates\<close>

text \<open>
  \<open>ord2ymd\<close> inverts \<open>ymd2ord\<close>: for every ordinal from 1 on it returns a date of the
  calendar whose ordinal is the one given.
\<close>

lemma month_estimate:
  fixes r :: int
  assumes "0 \<le> r" "r < 365"
  shows "1 \<le> (r + 50) div 32 \<and> (r + 50) div 32 \<le> 12
         \<and> 32 * ((r + 50) div 32) - 50 \<le> r \<and> r \<le> 32 * ((r + 50) div 32) - 19"
proof -
  define q where "q = (r + 50) div 32"
  define m where "m = (r + 50) mod 32"
  have "r + 50 = 32 * q + m"
    by (simp add: q_def m_def)
  moreover have "0 \<le> m" "m < 32"
    by (simp_all add: m_def)
  ultimately have "1 \<le> q \<and> q \<le> 12 \<and> 32 * q - 50 \<le> r \<and> r \<le> 32 * q - 19"
    using assms by linarith
  then show ?thesis
    by (simp add: q_def)
qed

lemma month_part:
  fixes r :: int and lp :: bool
  assumes "0 \<le> r" "r < 365"
  defines "mth \<equiv> (r + 50) div 32"
  defines "pre \<equiv> DAYS_BEFORE_MONTH ! nat mth + (if mth > 2 \<and> lp then 1 else 0)"
  defines "m' \<equiv> (if pre > r then mth - 1 else mth)"
  defines "d' \<equiv> (if pre > r
                   then r - (pre - (DAYS_IN_MONTH ! nat (mth - 1) + (if mth - 1 = 2 \<and> lp then 1 else 0))) + 1
                   else r - pre + 1)"
  shows "1 \<le> m' \<and> m' \<le> 12 \<and> 1 \<le> d'
         \<and> d' \<le> (if m' = 2 \<and> lp then 29 else DAYS_IN_MONTH ! nat m')
         \<and> DAYS_BEFORE_MONTH ! nat m' + (if m' > 2 \<and> lp then 1 else 0) + d' = r + 1"
proof -
  from month_estimate [OF assms(1,2)]
  have b: "1 \<le> mth" "mth \<le> 12" "32 * mth - 50 \<le> r" "r \<le> 32 * mth - 19"
    by (simp_all add: mth_def)
  then have "mth \<in> set [1..12]"
    by simp
  then have "mth = 1 \<or> mth = 2 \<or> mth = 3 \<or> mth = 4 \<or> mth = 5 \<or> mth = 6
    \<or> mth = 7 \<or> mth = 8 \<or> mth = 9 \<or> mth = 10 \<or> mth = 11 \<or> mth = 12"
    by (simp add: upto_rec1)
  then consider "mth = 1" | "mth = 2" | "mth = 3" | "mth = 4" | "mth = 5" | "mth = 6"
    | "mth = 7" | "mth = 8" | "mth = 9" | "mth = 10" | "mth = 11" | "mth = 12"
    by blast
  then show ?thesis
  proof cases
    case 1
    with b assms(1,2) show ?thesis
      by (cases lp) (simp_all add: m'_def d'_def pre_def DAYS_BEFORE_MONTH_def DAYS_IN_MONTH_def)
  next
    case 2
    with b assms(1,2) show ?thesis
      by (cases lp) (simp_all add: m'_def d'_def pre_def DAYS_BEFORE_MONTH_def DAYS_IN_MONTH_def)
  next
    case 3
    with b assms(1,2) show ?thesis
      by (cases lp) (simp_all add: m'_def d'_def pre_def DAYS_BEFORE_MONTH_def DAYS_IN_MONTH_def)
  next
    case 4
    with b assms(1,2) show ?thesis
      by (cases lp) (simp_all add: m'_def d'_def pre_def DAYS_BEFORE_MONTH_def DAYS_IN_MONTH_def)
  next
    case 5
    with b assms(1,2) show ?thesis
      by (cases lp) (simp_all add: m'_def d'_def pre_def DAYS_BEFORE_MONTH_def DAYS_IN_MONTH_def)
  next
    case 6
    with b assms(1,2) show ?thesis
      by (cases lp) (simp_all add: m'_def d'_def pre_def DAYS_BEFORE_MONTH_def DAYS_IN_MONTH_def)
  next
    case 7
    with b assms(1,2) show ?thesis
      by (cases lp) (simp_all add: m'_def d'_def pre_def DAYS_BEFORE_MONTH_def DAYS_IN_MONTH_def)
  next
    case 8
    with b assms(1,2) show ?thesis
      by (cases lp) (simp_all add: m'_def d'_def pre_def DAYS_BEFORE_MONTH_def DAYS_IN_MONTH_def)
  next
    case 9
    with b assms(1,2) show ?thesis
      by (cases lp) (simp_all add: m'_def d'_def pre_def DAYS_BEFORE_MONTH_def DAYS_IN_MONTH_def)
  next
    case 10
    with b assms(1,2) show ?thesis
      by (cases lp) (simp_all add: m'_def d'_def pre_def DAYS_BEFORE_MONTH_def DAYS_IN_MONTH_def)
  next
    case 11
    with b assms(1,2) show ?thesis
      by (cases lp) (simp_all add: m'_def d'_def pre_def DAYS_BEFORE_MONTH_def DAYS_IN_MONTH_def)
  next
    case 12
    with b assms(1,2) show ?thesis
      by (cases lp) (simp_all add: m'_def d'_def pre_def DAYS_BEFORE_MONTH_def DAYS_IN_MONTH_def)
  qed
qed

lemma cycle_lengths: "DI400Y = 146097" "DI100Y = 36524" "DI4Y = 1461"
  by (simp_all add: DI400Y_def DI100Y_def DI4Y_def days_before_year_def)

lemma year_divs:
  fixes a b c d :: int
  assumes "0 \<le> b" "b \<le> 3" "0 \<le> c" "c \<le> 24" "0 \<le> d" "d \<le> 3"
  shows "(400 * a + 100 * b + 4 * c + d) div 4 = 100 * a + 25 * b + c"
    and "(400 * a + 100 * b + 4 * c + d) div 100 = 4 * a + b"
    and "(400 * a + 100 * b + 4 * c + d) div 400 = a"
proof -
  show "(400 * a + 100 * b + 4 * c + d) div 4 = 100 * a + 25 * b + c"
    by (rule int_div_pos_eq [where r = d]) (use assms in simp_all)
  show "(400 * a + 100 * b + 4 * c + d) div 100 = 4 * a + b"
    by (rule int_div_pos_eq [where r = "4 * c + d"]) (use assms in simp_all)
  show "(400 * a + 100 * b + 4 * c + d) div 400 = a"
    by (rule int_div_pos_eq [where r = "100 * b + 4 * c + d"]) (use assms in simp_all)
qed

lemma days_before_year_cycles:
  fixes a b c d :: int
  assumes "0 \<le> b" "b \<le> 3" "0 \<le> c" "c \<le> 24" "0 \<le> d" "d \<le> 3"
  shows "days_before_year (400 * a + 100 * b + 4 * c + d + 1)
           = 146097 * a + 36524 * b + 1461 * c + 365 * d"
  by (simp add: days_before_year_def year_divs [OF assms])

lemma year_mods:
  fixes a b c d :: int
  assumes "0 \<le> b" "b \<le> 3" "0 \<le> c" "c \<le> 24" "0 \<le> d" "d \<le> 3"
  shows "(400 * a + 100 * b + 4 * c + d) mod 4 = d"
    and "(400 * a + 100 * b + 4 * c + d) mod 100 = 4 * c + d"
    and "(400 * a + 100 * b + 4 * c + d) mod 400 = 100 * b + 4 * c + d"
proof -
  show "(400 * a + 100 * b + 4 * c + d) mod 4 = d"
    by (rule int_mod_pos_eq [where q = "100 * a + 25 * b + c"]) (use assms in simp_all)
  show "(400 * a + 100 * b + 4 * c + d) mod 100 = 4 * c + d"
    by (rule int_mod_pos_eq [where q = "4 * a + b"]) (use assms in simp_all)
  show "(400 * a + 100 * b + 4 * c + d) mod 400 = 100 * b + 4 * c + d"
    by (rule int_mod_pos_eq [where q = a]) (use assms in simp_all)
qed

lemma is_leap_cycles:
  fixes a b c d :: int
  assumes "0 \<le> b" "b \<le> 3" "0 \<le> c" "c \<le> 24" "0 \<le> d" "d \<le> 3"
  shows "is_leap (400 * a + 100 * b + 4 * c + d + 1) = (d = 3 \<and> (c \<noteq> 24 \<or> b = 3))"
proof -
  define y where "y = 400 * a + 100 * b + 4 * c + d + 1"
  have goal: "is_leap y = (d = 3 \<and> (c \<noteq> 24 \<or> b = 3))"
  proof (cases "d = 3")
    case False
    with assms have d: "0 \<le> d + 1" "d + 1 \<le> 3" by simp_all
    have "y = 400 * a + 100 * b + 4 * c + (d + 1)"
      by (simp add: y_def)
    then have "y mod 4 = d + 1"
      using year_mods(1) [OF assms(1-4) d] by simp
    with False assms(5) show ?thesis
      by (simp add: is_leap_def)
  next
    case True
    show ?thesis
    proof (cases "c = 24")
      case False
      with assms have c: "0 \<le> c + 1" "c + 1 \<le> 24" by simp_all
      have z: "(0::int) \<le> 0" "(0::int) \<le> 3" by simp_all
      have e: "y = 400 * a + 100 * b + 4 * (c + 1) + 0"
        using True by (simp add: y_def)
      have "y mod 4 = 0" "y mod 100 = 4 * (c + 1) + 0"
        unfolding e by (rule year_mods [OF assms(1,2) c z])+
      with True False assms(3) show ?thesis
        by (simp add: is_leap_def)
    next
      case c24: True
      show ?thesis
      proof (cases "b = 3")
        case False
        with assms have b: "0 \<le> b + 1" "b + 1 \<le> 3" by simp_all
        have z: "(0::int) \<le> 0" "(0::int) \<le> 24" "(0::int) \<le> 0" "(0::int) \<le> 3" by simp_all
        have e: "y = 400 * a + 100 * (b + 1) + 4 * 0 + 0"
          using True c24 by (simp add: y_def)
        have "y mod 4 = 0" "y mod 100 = 4 * 0 + 0" "y mod 400 = 100 * (b + 1) + 4 * 0 + 0"
          unfolding e by (rule year_mods [OF b z])+
        with True c24 False assms(1) show ?thesis
          by (simp add: is_leap_def)
      next
        case b3: True
        have e: "y = 400 * (a + 1)"
          using True c24 b3 by (simp add: y_def)
        have "y mod 4 = 0" "y mod 400 = 0"
          unfolding e by simp_all
        with True c24 b3 show ?thesis
          by (simp add: is_leap_def)
      qed
    qed
  qed
  then show ?thesis
    by (simp only: y_def)
qed

lemma ord2ymd_inverse:
  assumes "1 \<le> n"
  shows "\<exists>y m d. ord2ymd n = (y, m, d) \<and> ymd2ord y m d = n \<and> 1 \<le> y
           \<and> 1 \<le> m \<and> m \<le> 12 \<and> 1 \<le> d \<and> d \<le> days_in_month y m
           \<and> (364878 \<le> n \<longrightarrow> 1000 \<le> y)"
proof -
  define a where "a = (n - 1) div 146097"
  define r1 where "r1 = (n - 1) mod 146097"
  define b where "b = r1 div 36524"
  define r2 where "r2 = r1 mod 36524"
  define c where "c = r2 div 1461"
  define r3 where "r3 = r2 mod 1461"
  define d where "d = r3 div 365"
  define r4 where "r4 = r3 mod 365"
  have n: "n - 1 = 146097 * a + r1" and r1: "0 \<le> r1" "r1 < 146097"
    by (simp_all add: a_def r1_def)
  have r1e: "r1 = 36524 * b + r2" and r2: "0 \<le> r2" "r2 < 36524"
    by (simp_all add: b_def r2_def)
  have r2e: "r2 = 1461 * c + r3" and r3: "0 \<le> r3" "r3 < 1461"
    by (simp_all add: c_def r3_def)
  have r3e: "r3 = 365 * d + r4" and r4: "0 \<le> r4" "r4 < 365"
    by (simp_all add: d_def r4_def)
  have a: "0 \<le> a"
    using assms by (simp add: a_def pos_imp_zdiv_nonneg_iff)
  have b: "0 \<le> b" "b \<le> 4"
    using r1 r1e r2 by linarith+
  have c: "0 \<le> c" "c \<le> 24"
    using r2 r2e r3 by linarith+
  have d: "0 \<le> d" "d \<le> 4"
    using r3 r3e r4 by linarith+
  have unf: "ord2ymd n =
      (if d = 4 \<or> b = 4 then (a * 400 + 1 + b * 100 + c * 4 + d - 1, 12, 31)
       else (let leapyear = (d = 3 \<and> (c \<noteq> 24 \<or> b = 3));
                 month = (r4 + 50) div 32;
                 preceding = DAYS_BEFORE_MONTH ! nat month + (if month > 2 \<and> leapyear then 1 else 0)
             in if preceding > r4
                then (let month = month - 1;
                          preceding = preceding
                            - (DAYS_IN_MONTH ! nat month + (if month = 2 \<and> leapyear then 1 else 0))
                      in (a * 400 + 1 + b * 100 + c * 4 + d, month, r4 - preceding + 1))
                else (a * 400 + 1 + b * 100 + c * 4 + d, month, r4 - preceding + 1)))"
    unfolding ord2ymd_def cycle_lengths a_def r1_def b_def r2_def c_def r3_def d_def r4_def Let_def
    by (rule refl)
  show ?thesis
  proof (cases "d = 4 \<or> b = 4")
    case True
    have "\<exists>a' b' c'. 0 \<le> b' \<and> b' \<le> 3 \<and> 0 \<le> c' \<and> c' \<le> 24 \<and> 0 \<le> a'
             \<and> a * 400 + 1 + b * 100 + c * 4 + d - 1 = 400 * a' + 100 * b' + 4 * c' + 3 + 1
             \<and> n = 146097 * a' + 36524 * b' + 1461 * c' + 365 * 3 + 366
             \<and> (c' \<noteq> 24 \<or> b' = 3)"
    proof (cases "b = 4")
      case True
      with r1 r1e r2 have "r2 = 0" by linarith
      with r2e r3 c have "c = 0" "r3 = 0" by linarith+
      with r3e r4 d have "d = 0" "r4 = 0" by linarith+
      have "0 \<le> (3::int) \<and> (3::int) \<le> 3 \<and> 0 \<le> (24::int) \<and> (24::int) \<le> 24 \<and> 0 \<le> a
             \<and> a * 400 + 1 + b * 100 + c * 4 + d - 1 = 400 * a + 100 * 3 + 4 * 24 + 3 + 1
             \<and> n = 146097 * a + 36524 * 3 + 1461 * 24 + 365 * 3 + 366
             \<and> ((24::int) \<noteq> 24 \<or> (3::int) = 3)"
        using True \<open>c = 0\<close> \<open>d = 0\<close> \<open>r2 = 0\<close> n r1e a by simp
      then show ?thesis by blast
    next
      case False
      with True have d4: "d = 4" by simp
      with r3 r3e r4 have "r4 = 0" by linarith
      have "c \<noteq> 24"
        using d4 r3e r4 r2e r2 by linarith
      with c have c': "0 \<le> c" "c \<le> 24" "c \<noteq> 24" by simp_all
      from False b have b': "0 \<le> b" "b \<le> 3" by simp_all
      have "0 \<le> b \<and> b \<le> 3 \<and> 0 \<le> c \<and> c \<le> 24 \<and> 0 \<le> a
             \<and> a * 400 + 1 + b * 100 + c * 4 + d - 1 = 400 * a + 100 * b + 4 * c + 3 + 1
             \<and> n = 146097 * a + 36524 * b + 1461 * c + 365 * 3 + 366
             \<and> (c \<noteq> 24 \<or> b = 3)"
        using b' c' a d4 \<open>r4 = 0\<close> n r1e r2e r3e by simp
      then show ?thesis by blast
    qed
    then obtain a' b' c' where
      h: "0 \<le> b'" "b' \<le> 3" "0 \<le> c'" "c' \<le> 24" "0 \<le> a'"
        "a * 400 + 1 + b * 100 + c * 4 + d - 1 = 400 * a' + 100 * b' + 4 * c' + 3 + 1"
        "n = 146097 * a' + 36524 * b' + 1461 * c' + 365 * 3 + 366"
        "c' \<noteq> 24 \<or> b' = 3"
      by blast
    define y where "y = 400 * a' + 100 * b' + 4 * c' + 3 + 1"
    have z: "(0::int) \<le> 3" "(3::int) \<le> 3" by simp_all
    have dby: "days_before_year y = 146097 * a' + 36524 * b' + 1461 * c' + 365 * 3"
      unfolding y_def by (rule days_before_year_cycles [OF h(1-4) z])
    have lp: "is_leap y"
      unfolding y_def using is_leap_cycles [OF h(1-4) z, of a'] h(8) by simp
    have "ymd2ord y 12 31 = n"
      by (simp add: ymd2ord_def dby days_before_month_def lp DAYS_BEFORE_MONTH_def h(7))
    moreover have "days_in_month y 12 = 31"
      by (simp add: days_in_month_def DAYS_IN_MONTH_def)
    moreover have "1 \<le> y"
      using h(1,3,5) by (simp add: y_def)
    moreover have "ord2ymd n = (y, 12, 31)"
      using True by (simp only: unf if_True y_def h(6))
    moreover have "364878 \<le> n \<longrightarrow> 1000 \<le> y"
    proof
      assume big: "364878 \<le> n"
      show "1000 \<le> y"
      proof (rule ccontr)
        assume "\<not> 1000 \<le> y"
        define k where "k = 100 * a' + 25 * b' + c'"
        have "4 * k \<le> 995"
          using \<open>\<not> 1000 \<le> y\<close> by (simp add: y_def k_def)
        then have "k \<le> 248"
          by linarith
        then have "100 * a' + 25 * b' + c' \<le> 248"
          by (simp add: k_def)
        with h(1-5,7) big show False
          by linarith
      qed
    qed
    ultimately show ?thesis by simp
  next
    case False
    with b d have b': "0 \<le> b" "b \<le> 3" and d': "0 \<le> d" "d \<le> 3" by simp_all
    define y where "y = 400 * a + 100 * b + 4 * c + d + 1"
    define lp where "lp = (d = 3 \<and> (c \<noteq> 24 \<or> b = 3))"
    define mth where "mth = (r4 + 50) div 32"
    define pre where "pre = DAYS_BEFORE_MONTH ! nat mth + (if mth > 2 \<and> lp then 1 else 0)"
    define m' where "m' = (if pre > r4 then mth - 1 else mth)"
    define d' where "d' = (if pre > r4
                   then r4 - (pre - (DAYS_IN_MONTH ! nat (mth - 1) + (if mth - 1 = 2 \<and> lp then 1 else 0))) + 1
                   else r4 - pre + 1)"
    have ye: "a * 400 + 1 + b * 100 + c * 4 + d = y"
      by (simp add: y_def)
    have res: "ord2ymd n = (y, m', d')"
      using False
      by (simp only: unf if_False ye Let_def lp_def [symmetric] mth_def [symmetric]
            pre_def [symmetric]) (simp add: m'_def d'_def)
    have mp: "1 \<le> m' \<and> m' \<le> 12 \<and> 1 \<le> d'
         \<and> d' \<le> (if m' = 2 \<and> lp then 29 else DAYS_IN_MONTH ! nat m')
         \<and> DAYS_BEFORE_MONTH ! nat m' + (if m' > 2 \<and> lp then 1 else 0) + d' = r4 + 1"
      unfolding m'_def d'_def pre_def mth_def by (rule month_part [OF r4])
    have dby: "days_before_year y = 146097 * a + 36524 * b + 1461 * c + 365 * d"
      unfolding y_def by (rule days_before_year_cycles [OF b' c d'])
    have leap: "is_leap y = lp"
      unfolding y_def lp_def by (rule is_leap_cycles [OF b' c d'])
    have "ymd2ord y m' d' = n"
      using mp n r1e r2e r3e by (simp add: ymd2ord_def dby days_before_month_def leap)
    moreover have "d' \<le> days_in_month y m'"
      using mp by (simp add: days_in_month_def leap)
    moreover have "1 \<le> y"
      using a b' c d' by (simp add: y_def)
    moreover have "364878 \<le> n \<longrightarrow> 1000 \<le> y"
    proof
      assume big: "364878 \<le> n"
      show "1000 \<le> y"
      proof (rule ccontr)
        assume "\<not> 1000 \<le> y"
        then have "400 * a + 100 * b + 4 * c + d \<le> 998"
          by (simp add: y_def)
        with b' c d' r4 n r1e r2e r3e big show False
          by linarith
      qed
    qed
    ultimately show ?thesis
      using res mp by simp
  qed
qed

lemma days_before_year_lower:
  assumes "10000 \<le> y"
  shows "3652059 \<le> days_before_year y"
proof -
  define z where "z = y - 1"
  define q4 where "q4 = z div 4"
  define q100 where "q100 = z div 100"
  define q400 where "q400 = z div 400"
  have z: "9999 \<le> z" using assms by (simp add: z_def)
  have "z = 4 * q4 + z mod 4" "0 \<le> z mod 4" "z mod 4 < 4"
    by (simp_all add: q4_def)
  then have h4: "z - 3 \<le> 4 * q4" by linarith
  have "z = 100 * q100 + z mod 100" "0 \<le> z mod 100" "z mod 100 < 100"
    by (simp_all add: q100_def)
  then have h100: "100 * q100 \<le> z" by linarith
  have "z = 400 * q400 + z mod 400" "0 \<le> z mod 400" "z mod 400 < 400"
    by (simp_all add: q400_def)
  then have h400: "z - 399 \<le> 400 * q400" by linarith
  have "25 * (z - 3) \<le> 100 * q4"
    using h4 by simp
  then have "239901 \<le> 100 * q4 - 100 * q100"
    using h100 z by simp
  then have a: "2400 \<le> q4 - q100" by linarith
  have "9600 \<le> 400 * q400" using h400 z by linarith
  then have b: "24 \<le> q400" by linarith
  have "3652059 \<le> z * 365 + q4 - q100 + q400"
    using a b z by linarith
  then show ?thesis
    by (simp add: days_before_year_def Let_def z_def q4_def q100_def q400_def)
qed

lemma ord2ymd_year_bound:
  assumes "ord2ymd n = (y, m, d)" "ymd2ord y m d = n" "1 \<le> m" "m \<le> 12" "1 \<le> d" "n \<le> MAXORDINAL"
  shows "y \<le> 9999"
proof (rule ccontr)
  assume "\<not> y \<le> 9999"
  then have "3652059 \<le> days_before_year y"
    by (intro days_before_year_lower) simp
  moreover have "0 \<le> days_before_month y m"
  proof -
    from assms(3,4) have "m \<in> set [1..12]" by simp
    then have "m = 1 \<or> m = 2 \<or> m = 3 \<or> m = 4 \<or> m = 5 \<or> m = 6
      \<or> m = 7 \<or> m = 8 \<or> m = 9 \<or> m = 10 \<or> m = 11 \<or> m = 12"
      by (simp add: upto_rec1)
    then show ?thesis
      by (elim disjE) (simp_all add: days_before_month_def DAYS_BEFORE_MONTH_def)
  qed
  ultimately show False
    using assms(2,5,6) by (simp add: ymd2ord_def MAXORDINAL_def)
qed

section \<open>Parsing and printing a timestamp\<close>

text \<open>
  \<open>strptime\<close> reads a valid date and time written in the form \<open>YYYY-MM-DD HH:MM:SS\<close>
  back, and of a string of that form it accepts nothing but the fields the string
  shows.  From the year 1000 on \<open>strftime\<close> prints that form.
\<close>

lemma digit_cases:
  fixes d :: int
  assumes "0 \<le> d" "d \<le> 9"
  shows "d = 0 \<or> d = 1 \<or> d = 2 \<or> d = 3 \<or> d = 4 \<or> d = 5 \<or> d = 6 \<or> d = 7 \<or> d = 8 \<or> d = 9"
proof -
  from assms have "d \<in> set [0..9]" by simp
  then show ?thesis by (simp add: upto_rec1)
qed

lemma digit_chr_nth: "0 \<le> d \<Longrightarrow> d \<le> 9 \<Longrightarrow> digit_chr d = digits ! nat d"
  by (drule (1) digit_cases, elim disjE) (simp_all add: digit_chr_def digits_def char_of_def)

lemma digit_val_chr: "0 \<le> d \<Longrightarrow> d \<le> 9 \<Longrightarrow> digit_val (digit_chr d) = d"
  by (drule (1) digit_cases, elim disjE) (simp_all add: digit_chr_def digit_val_def char_of_def)

lemma digit_chr_digit: "0 \<le> d \<Longrightarrow> d \<le> 9 \<Longrightarrow> digit_chr d \<in> set digits"
  by (drule (1) digit_cases, elim disjE) (simp_all add: digit_chr_def digits_def char_of_def)

lemma digit_chr_mod [simp]: "digit_chr (x mod 10) \<in> set digits"
  by (rule digit_chr_digit) simp_all

lemma digit_val_mod [simp]: "digit_val (digit_chr (x mod 10)) = x mod 10"
  by (rule digit_val_chr) simp_all

lemma digit_not_space: "c \<in> set digits \<Longrightarrow> \<not> is_space c"
  by (auto simp: digits_def is_space_def)

lemma zero_pad_2: "zero_pad 2 v = [digit_chr (v div 10 mod 10), digit_chr (v mod 10)]"
  by (simp add: numeral_2_eq_2)

lemma zero_pad_4:
  "zero_pad 4 v = [digit_chr (v div 10 div 10 div 10 mod 10), digit_chr (v div 10 div 10 mod 10),
                   digit_chr (v div 10 mod 10), digit_chr (v mod 10)]"
  by (simp add: numeral_eq_Suc)

lemma int_of_zero_pad_2:
  assumes "0 \<le> v" "v \<le> 99"
  shows "int_of (zero_pad 2 v) = v"
proof -
  have "int_of (zero_pad 2 v) = 10 * (v div 10 mod 10) + v mod 10"
    by (simp add: int_of_def zero_pad_2)
  also have "v div 10 mod 10 = v div 10"
    using assms by (intro mod_pos_pos_trivial) simp_all
  finally show ?thesis
    by simp
qed

lemma int_of_zero_pad_4:
  assumes "0 \<le> v" "v \<le> 9999"
  shows "int_of (zero_pad 4 v) = v"
proof -
  define q1 where "q1 = v div 10"
  define q2 where "q2 = q1 div 10"
  define q3 where "q3 = q2 div 10"
  have "int_of (zero_pad 4 v) = 10 * (10 * (10 * (q3 mod 10) + q2 mod 10) + q1 mod 10) + v mod 10"
    by (simp add: int_of_def zero_pad_4 q1_def q2_def q3_def)
  also have "q3 mod 10 = q3"
  proof (intro mod_pos_pos_trivial)
    show "0 \<le> q3" using assms by (simp add: q3_def q2_def q1_def pos_imp_zdiv_nonneg_iff)
    have "q1 \<le> 999" using assms unfolding q1_def by linarith
    then have "q2 \<le> 99" unfolding q2_def by linarith
    then show "q3 < 10" unfolding q3_def by linarith
  qed
  also have "10 * (10 * (10 * q3 + q2 mod 10) + q1 mod 10) + v mod 10 = v"
    by (simp add: q3_def q2_def q1_def)
  finally show ?thesis .
qed

lemma match_Y: "\<exists>t. match_alts re_Y (zero_pad 4 y @ rest) = (zero_pad 4 y, rest) # t"
  by (simp add: match_alts_def re_Y_def zero_pad_4)

lemma match_m:
  assumes "1 \<le> v" "v \<le> 12"
  shows "\<exists>t. match_alts re_m (zero_pad 2 v @ rest) = (zero_pad 2 v, rest) # t"
proof -
  from assms have "v \<in> set [1..12]" by simp
  then have "v = 1 \<or> v = 2 \<or> v = 3 \<or> v = 4 \<or> v = 5 \<or> v = 6 \<or> v = 7 \<or> v = 8 \<or> v = 9
      \<or> v = 10 \<or> v = 11 \<or> v = 12"
    by (simp add: upto_rec1)
  then show ?thesis
    by (elim disjE) (simp_all add: match_alts_def re_m_def zero_pad_2 digit_chr_def char_of_def)
qed

lemma tens_digit:
  fixes v :: int
  assumes "0 \<le> v" "v \<le> 59"
  shows "v div 10 mod 10 = 0 \<or> v div 10 mod 10 = 1 \<or> v div 10 mod 10 = 2
         \<or> v div 10 mod 10 = 3 \<or> v div 10 mod 10 = 4 \<or> v div 10 mod 10 = 5"
proof -
  have "0 \<le> v div 10" "v div 10 \<le> 5"
    using assms by linarith+
  then have "v div 10 \<in> set [0..5]" by simp
  then show ?thesis by (auto simp: upto_rec1)
qed

lemma match_M:
  assumes "0 \<le> v" "v \<le> 59"
  shows "\<exists>t. match_alts re_M (zero_pad 2 v @ rest) = (zero_pad 2 v, rest) # t"
  using tens_digit [OF assms]
  by (elim disjE) (simp_all add: match_alts_def re_M_def zero_pad_2 digit_chr_def [of 0]
        digit_chr_def [of 1] digit_chr_def [of 2] digit_chr_def [of 3] digit_chr_def [of 4]
        digit_chr_def [of 5] char_of_def)

lemma match_S:
  assumes "0 \<le> v" "v \<le> 59"
  shows "\<exists>t. match_alts re_S (zero_pad 2 v @ rest) = (zero_pad 2 v, rest) # t"
  using tens_digit [OF assms]
  by (elim disjE) (simp_all add: match_alts_def re_S_def zero_pad_2 digit_chr_def [of 0]
        digit_chr_def [of 1] digit_chr_def [of 2] digit_chr_def [of 3] digit_chr_def [of 4]
        digit_chr_def [of 5] char_of_def)

lemma match_d:
  assumes "1 \<le> v" "v \<le> 31"
  shows "\<exists>t. match_alts re_d (zero_pad 2 v @ rest) = (zero_pad 2 v, rest) # t"
proof -
  from assms have "v \<in> set [1..31]" by simp
  then have "v = 1 \<or> v = 2 \<or> v = 3 \<or> v = 4 \<or> v = 5 \<or> v = 6 \<or> v = 7 \<or> v = 8 \<or> v = 9
      \<or> v = 10 \<or> v = 11 \<or> v = 12 \<or> v = 13 \<or> v = 14 \<or> v = 15 \<or> v = 16 \<or> v = 17 \<or> v = 18
      \<or> v = 19 \<or> v = 20 \<or> v = 21 \<or> v = 22 \<or> v = 23 \<or> v = 24 \<or> v = 25 \<or> v = 26 \<or> v = 27
      \<or> v = 28 \<or> v = 29 \<or> v = 30 \<or> v = 31"
    by (simp add: upto_rec1)
  then show ?thesis
    by (elim disjE)
       (simp_all add: match_alts_def re_d_def zero_pad_2 digit_chr_def digits_def char_of_def)
qed

lemma match_H:
  assumes "0 \<le> v" "v \<le> 23"
  shows "\<exists>t. match_alts re_H (zero_pad 2 v @ rest) = (zero_pad 2 v, rest) # t"
proof -
  from assms have "v \<in> set [0..23]" by simp
  then have "v = 0 \<or> v = 1 \<or> v = 2 \<or> v = 3 \<or> v = 4 \<or> v = 5 \<or> v = 6 \<or> v = 7 \<or> v = 8 \<or> v = 9
      \<or> v = 10 \<or> v = 11 \<or> v = 12 \<or> v = 13 \<or> v = 14 \<or> v = 15 \<or> v = 16 \<or> v = 17 \<or> v = 18
      \<or> v = 19 \<or> v = 20 \<or> v = 21 \<or> v = 22 \<or> v = 23"
    by (simp add: upto_rec1)
  then show ?thesis
    by (elim disjE)
       (simp_all add: match_alts_def re_H_def zero_pad_2 digit_chr_def digits_def char_of_def)
qed

lemma match_lit_same: "match_lit c (c # rest) = [rest]"
  by (simp add: match_lit_def)

lemma match_spaces_one:
  "\<exists>t. match_spaces (CHR '' '' # zero_pad 2 v @ rest) = (zero_pad 2 v @ rest) # t"
proof -
  have "\<not> is_space (digit_chr (v div 10 mod 10))"
    by (rule digit_not_space) simp
  moreover have "is_space CHR '' ''"
    by (simp add: is_space_def)
  ultimately show ?thesis
    by (simp add: match_spaces_def zero_pad_2)
qed

lemma first_of_sequence:
  assumes "\<exists>t. A s = (y, s1) # t" "\<exists>t. L1 s1 = s2 # t"
    and "\<exists>t. B s2 = (m, s3) # t" "\<exists>t. L2 s3 = s4 # t"
    and "\<exists>t. C s4 = (d, s5) # t" "\<exists>t. W s5 = s6 # t"
    and "\<exists>t. D s6 = (h, s7) # t" "\<exists>t. L3 s7 = s8 # t"
    and "\<exists>t. E s8 = (mi, s9) # t" "\<exists>t. L4 s9 = s10 # t"
    and "\<exists>t. G s10 = (sec, s11) # t"
  shows "\<exists>t. [F Y m d H M S r11.
              (Y, r1) \<leftarrow> A s, r2 \<leftarrow> L1 r1,
              (m, r3) \<leftarrow> B r2, r4 \<leftarrow> L2 r3,
              (d, r5) \<leftarrow> C r4, r6 \<leftarrow> W r5,
              (H, r7) \<leftarrow> D r6, r8 \<leftarrow> L3 r7,
              (M, r9) \<leftarrow> E r8, r10 \<leftarrow> L4 r9,
              (S, r11) \<leftarrow> G r10] = F y m d h mi sec s11 # t"
  using assms by (elim exE) simp

lemma format_regex_match_canonical:
  assumes "check_fields dt"
  shows "format_regex_match (canonical dt) = Some (dt, [])"
proof -
  have f: "1 \<le> year dt" "year dt \<le> 9999" "1 \<le> month dt" "month dt \<le> 12"
    "1 \<le> day dt" "day dt \<le> days_in_month (year dt) (month dt)"
    "0 \<le> hour dt" "hour dt \<le> 23" "0 \<le> minute dt" "minute dt \<le> 59"
    "0 \<le> second dt" "second dt \<le> 59"
    using assms by (simp_all add: check_fields_def)
  have dm: "day dt \<le> 31"
  proof -
    from f(3,4) have "month dt \<in> set [1..12]" by simp
    then have "month dt = 1 \<or> month dt = 2 \<or> month dt = 3 \<or> month dt = 4 \<or> month dt = 5
      \<or> month dt = 6 \<or> month dt = 7 \<or> month dt = 8 \<or> month dt = 9 \<or> month dt = 10
      \<or> month dt = 11 \<or> month dt = 12"
      by (simp add: upto_rec1)
    then have "days_in_month (year dt) (month dt) \<le> 31"
      by (elim disjE) (simp_all add: days_in_month_def DAYS_IN_MONTH_def)
    with f(6) show ?thesis by simp
  qed
  define s6 where "s6 = zero_pad 2 (hour dt) @ '':'' @ zero_pad 2 (minute dt) @ '':'' @ zero_pad 2 (second dt)"
  have "\<exists>t. [(\<lparr>year = int_of Y, month = int_of m, day = int_of d,
               hour = int_of H, minute = int_of M, second = int_of S\<rparr>, r11).
              (Y, r1) \<leftarrow> match_alts re_Y (canonical dt), r2 \<leftarrow> match_lit CHR ''-'' r1,
              (m, r3) \<leftarrow> match_alts re_m r2, r4 \<leftarrow> match_lit CHR ''-'' r3,
              (d, r5) \<leftarrow> match_alts re_d r4, r6 \<leftarrow> match_spaces r5,
              (H, r7) \<leftarrow> match_alts re_H r6, r8 \<leftarrow> match_lit CHR '':'' r7,
              (M, r9) \<leftarrow> match_alts re_M r8, r10 \<leftarrow> match_lit CHR '':'' r9,
              (S, r11) \<leftarrow> match_alts re_S r10]
        = (\<lparr>year = int_of (zero_pad 4 (year dt)), month = int_of (zero_pad 2 (month dt)),
             day = int_of (zero_pad 2 (day dt)), hour = int_of (zero_pad 2 (hour dt)),
             minute = int_of (zero_pad 2 (minute dt)), second = int_of (zero_pad 2 (second dt))\<rparr>, []) # t"
  proof (rule first_of_sequence)
    show "\<exists>t. match_alts re_Y (canonical dt)
        = (zero_pad 4 (year dt),
           CHR ''-'' # zero_pad 2 (month dt) @ CHR ''-'' # zero_pad 2 (day dt) @ CHR '' '' # s6) # t"
      using match_Y [of "year dt" "CHR ''-'' # zero_pad 2 (month dt) @ CHR ''-'' # zero_pad 2 (day dt) @ CHR '' '' # s6"]
      by (simp add: canonical_def s6_def)
    show "\<exists>t. match_lit CHR ''-'' (CHR ''-'' # zero_pad 2 (month dt) @ CHR ''-'' # zero_pad 2 (day dt) @ CHR '' '' # s6)
        = (zero_pad 2 (month dt) @ CHR ''-'' # zero_pad 2 (day dt) @ CHR '' '' # s6) # t"
      by (simp add: match_lit_same)
    show "\<exists>t. match_alts re_m (zero_pad 2 (month dt) @ CHR ''-'' # zero_pad 2 (day dt) @ CHR '' '' # s6)
        = (zero_pad 2 (month dt), CHR ''-'' # zero_pad 2 (day dt) @ CHR '' '' # s6) # t"
      by (rule match_m [OF f(3,4)])
    show "\<exists>t. match_lit CHR ''-'' (CHR ''-'' # zero_pad 2 (day dt) @ CHR '' '' # s6)
        = (zero_pad 2 (day dt) @ CHR '' '' # s6) # t"
      by (simp add: match_lit_same)
    show "\<exists>t. match_alts re_d (zero_pad 2 (day dt) @ CHR '' '' # s6)
        = (zero_pad 2 (day dt), CHR '' '' # s6) # t"
      by (rule match_d [OF f(5) dm])
    show "\<exists>t. match_spaces (CHR '' '' # s6) = s6 # t"
      unfolding s6_def by (rule match_spaces_one)
    show "\<exists>t. match_alts re_H s6
        = (zero_pad 2 (hour dt), CHR '':'' # zero_pad 2 (minute dt) @ CHR '':'' # zero_pad 2 (second dt)) # t"
      using match_H [OF f(7,8)] by (simp add: s6_def)
    show "\<exists>t. match_lit CHR '':'' (CHR '':'' # zero_pad 2 (minute dt) @ CHR '':'' # zero_pad 2 (second dt))
        = (zero_pad 2 (minute dt) @ CHR '':'' # zero_pad 2 (second dt)) # t"
      by (simp add: match_lit_same)
    show "\<exists>t. match_alts re_M (zero_pad 2 (minute dt) @ CHR '':'' # zero_pad 2 (second dt))
        = (zero_pad 2 (minute dt), CHR '':'' # zero_pad 2 (second dt)) # t"
      by (rule match_M [OF f(9,10)])
    show "\<exists>t. match_lit CHR '':'' (CHR '':'' # zero_pad 2 (second dt)) = zero_pad 2 (second dt) # t"
      by (simp add: match_lit_same)
    show "\<exists>t. match_alts re_S (zero_pad 2 (second dt)) = (zero_pad 2 (second dt), []) # t"
      using match_S [OF f(11,12), of "[]"] by simp
  qed
  moreover have "\<lparr>year = int_of (zero_pad 4 (year dt)), month = int_of (zero_pad 2 (month dt)),
             day = int_of (zero_pad 2 (day dt)), hour = int_of (zero_pad 2 (hour dt)),
             minute = int_of (zero_pad 2 (minute dt)), second = int_of (zero_pad 2 (second dt))\<rparr> = dt"
    using f dm by (simp add: int_of_zero_pad_2 int_of_zero_pad_4)
  ultimately show ?thesis
    unfolding format_regex_match_def by (elim exE) (simp only: list.case)
qed

lemma strptime_canonical: "check_fields dt \<Longrightarrow> strptime (canonical dt) = Inr dt"
  by (simp add: strptime_def format_regex_match_canonical)

lemma lexical_form_canonical: "lexical_form (canonical dt)"
  by (simp add: lexical_form_def form_classes_def canonical_def zero_pad_2 zero_pad_4)

lemma match_seq_sound:
  "(m, r) \<in> set (match_seq cls s) \<Longrightarrow> s = m @ r \<and> list_all2 (\<lambda>c cl. c \<in> set cl) m cls"
proof (induction cls s arbitrary: m rule: match_seq.induct)
  case (1 s)
  then show ?case by simp
next
  case (2 cls rest)
  then show ?case by simp
next
  case (3 cls rest c s)
  then show ?case by (auto split: if_splits)
qed

lemma match_lit_sound: "r \<in> set (match_lit c s) \<Longrightarrow> s = c # r"
  by (auto simp: match_lit_def split: list.splits if_splits)


lemma digit_of_char:
  assumes "c \<in> set digits"
  shows "digit_chr (digit_val c) = c \<and> 0 \<le> digit_val c \<and> digit_val c \<le> 9"
proof -
  from assms have "c = CHR ''0'' \<or> c = CHR ''1'' \<or> c = CHR ''2'' \<or> c = CHR ''3'' \<or> c = CHR ''4''
      \<or> c = CHR ''5'' \<or> c = CHR ''6'' \<or> c = CHR ''7'' \<or> c = CHR ''8'' \<or> c = CHR ''9''"
    by (simp add: digits_def)
  then show ?thesis
    by (elim disjE) (simp_all add: digit_chr_def digit_val_def char_of_def)
qed

lemma int_of_snoc:
  "c \<in> set digits \<Longrightarrow> int_of (ds @ [c]) = 10 * int_of ds + digit_val c"
  by (simp add: int_of_def)

lemma zero_pad_int_of:
  "set ds \<subseteq> set digits \<Longrightarrow> zero_pad (length ds) (int_of ds) = ds"
proof (induction ds rule: rev_induct)
  case Nil
  show ?case by simp
next
  case (snoc c ds)
  then have c: "c \<in> set digits" and ds: "set ds \<subseteq> set digits" by simp_all
  from digit_of_char [OF c] have v: "digit_chr (digit_val c) = c" "0 \<le> digit_val c" "digit_val c \<le> 9"
    by simp_all
  have "(10 * int_of ds + digit_val c) div 10 = int_of ds"
    using v(2,3) by simp
  moreover have "(10 * int_of ds + digit_val c) mod 10 = digit_val c"
    using v(2,3) by simp
  ultimately show ?case
    using snoc.IH [OF ds] v(1) by (simp add: int_of_snoc [OF c])
qed


lemma str_nat_step: "\<not> n < 10 \<Longrightarrow> str_nat n = str_nat (n div 10) @ [digit_chr (int (n mod 10))]"
  by (subst str_nat.simps) simp

lemma str_nat_digit: "n < 10 \<Longrightarrow> str_nat n = [digit_chr (int n)]"
  by (subst str_nat.simps) simp

lemma str_int_four_digits:
  assumes "1000 \<le> y" "y \<le> 9999"
  shows "str_int y = zero_pad 4 y"
proof -
  define n where "n = nat y"
  define q1 where "q1 = n div 10"
  define q2 where "q2 = q1 div 10"
  define q3 where "q3 = q2 div 10"
  have y: "y = int n" using assms by (simp add: n_def)
  have n: "1000 \<le> n" "n \<le> 9999" using assms by (simp_all add: n_def)
  have b1: "100 \<le> q1" "q1 \<le> 999" using n unfolding q1_def by linarith+
  have b2: "10 \<le> q2" "q2 \<le> 99" using b1 unfolding q2_def by linarith+
  have b3: "1 \<le> q3" "q3 \<le> 9" using b2 unfolding q3_def by linarith+
  have d: "\<not> n < 10" "\<not> q1 < 10" "\<not> q2 < 10" "q3 < 10"
    using n b1 b2 b3 by simp_all
  have "str_nat n = [digit_chr (int q3), digit_chr (int (q2 mod 10)),
                     digit_chr (int (q1 mod 10)), digit_chr (int (n mod 10))]"
    using str_nat_step [OF d(1)] str_nat_step [OF d(2)] str_nat_step [OF d(3)] str_nat_digit [OF d(4)]
    by (simp only: q1_def [symmetric] q2_def [symmetric] q3_def [symmetric] append.simps)
  moreover have "int q3 = int q3 mod 10"
    using b3 by simp
  moreover have "str_int y = str_nat n"
    using assms(1) by (simp add: str_int_def n_def)
  moreover have "zero_pad 4 y = [digit_chr (int q3 mod 10), digit_chr (int (q2 mod 10)),
                     digit_chr (int (q1 mod 10)), digit_chr (int (n mod 10))]"
    by (simp only: zero_pad_4 y q1_def q2_def q3_def zdiv_int zmod_int of_nat_numeral)
  ultimately show ?thesis
    by simp
qed

lemma strftime_canonical:
  "1000 \<le> year dt \<Longrightarrow> year dt \<le> 9999 \<Longrightarrow> strftime dt = canonical dt"
  by (simp add: strftime_def canonical_def str_int_four_digits)

lemma lexical_formE:
  assumes "lexical_form raw"
  obtains y1 y2 y3 y4 m1 m2 d1 d2 h1 h2 n1 n2 s1 s2 where
    "raw = [y1, y2, y3, y4, CHR ''-'', m1, m2, CHR ''-'', d1, d2, CHR '' '',
            h1, h2, CHR '':'', n1, n2, CHR '':'', s1, s2]"
    "set [y1, y2, y3, y4] \<subseteq> set digits" "set [m1, m2] \<subseteq> set digits"
    "set [d1, d2] \<subseteq> set digits" "set [h1, h2] \<subseteq> set digits"
    "set [n1, n2] \<subseteq> set digits" "set [s1, s2] \<subseteq> set digits"
  using assms by (auto simp: lexical_form_def form_classes_def list_all2_Cons2)

lemma zero_pad_4_digits:
  assumes "set [a, b, c, d] \<subseteq> set digits"
  shows "zero_pad 4 (int_of [a, b, c, d]) = [a, b, c, d]"
proof -
  have "length [a, b, c, d] = 4" by simp
  with zero_pad_int_of [OF assms] show ?thesis by (simp only:)
qed

lemma zero_pad_2_digits:
  assumes "set [a, b] \<subseteq> set digits"
  shows "zero_pad 2 (int_of [a, b]) = [a, b]"
proof -
  have "length [a, b] = 2" by simp
  with zero_pad_int_of [OF assms] show ?thesis by (simp only:)
qed

lemma fields_of_explicit:
  "fields_of [y1, y2, y3, y4, c4, m1, m2, c7, d1, d2, c10, h1, h2, c13, n1, n2, c16, s1, s2]
     = \<lparr>year = int_of [y1, y2, y3, y4], month = int_of [m1, m2], day = int_of [d1, d2],
        hour = int_of [h1, h2], minute = int_of [n1, n2], second = int_of [s1, s2]\<rparr>"
  by (simp add: fields_of_def)

lemma canonical_fields_of:
  assumes "lexical_form raw"
  shows "canonical (fields_of raw) = raw"
proof -
  from assms obtain y1 y2 y3 y4 m1 m2 d1 d2 h1 h2 n1 n2 s1 s2 where
    r: "raw = [y1, y2, y3, y4, CHR ''-'', m1, m2, CHR ''-'', d1, d2, CHR '' '',
            h1, h2, CHR '':'', n1, n2, CHR '':'', s1, s2]"
    and d: "set [y1, y2, y3, y4] \<subseteq> set digits" "set [m1, m2] \<subseteq> set digits"
    "set [d1, d2] \<subseteq> set digits" "set [h1, h2] \<subseteq> set digits"
    "set [n1, n2] \<subseteq> set digits" "set [s1, s2] \<subseteq> set digits"
    by (rule lexical_formE)
  show ?thesis
    unfolding r fields_of_explicit canonical_def
    by (simp add: zero_pad_4_digits [OF d(1)] zero_pad_2_digits [OF d(2)] zero_pad_2_digits [OF d(3)]
          zero_pad_2_digits [OF d(4)] zero_pad_2_digits [OF d(5)] zero_pad_2_digits [OF d(6)])
qed

lemma match_seq_length: "(m, r) \<in> set (match_seq cls s) \<Longrightarrow> length m = length cls"
  using match_seq_sound [of m r cls s] by (auto dest: list_all2_lengthD)

lemma alts_one_or_two:
  assumes "(m, r) \<in> set (match_alts alts (a # b # rest))"
    and "\<forall>cls \<in> set alts. length cls = 1 \<or> length cls = 2"
  shows "(m = [a] \<and> r = b # rest) \<or> (m = [a, b] \<and> r = rest)"
proof -
  from assms(1) obtain cls where c: "cls \<in> set alts" "(m, r) \<in> set (match_seq cls (a # b # rest))"
    by (auto simp: match_alts_def)
  from match_seq_sound [OF c(2)] have s: "a # b # rest = m @ r" by simp
  from match_seq_length [OF c(2)] assms(2) c(1) have "length m = 1 \<or> length m = 2" by auto
  then show ?thesis
  proof
    assume "length m = 1"
    then obtain x where "m = [x]" by (auto simp: length_Suc_conv)
    with s show ?thesis by simp
  next
    assume "length m = 2"
    then obtain x y where "m = [x, y]" by (auto simp: length_Suc_conv numeral_2_eq_2)
    with s show ?thesis by simp
  qed
qed

lemma alt_lengths:
  "\<forall>cls \<in> set re_m. length cls = 1 \<or> length cls = 2"
  "\<forall>cls \<in> set re_d. length cls = 1 \<or> length cls = 2"
  "\<forall>cls \<in> set re_H. length cls = 1 \<or> length cls = 2"
  "\<forall>cls \<in> set re_M. length cls = 1 \<or> length cls = 2"
  "\<forall>cls \<in> set re_S. length cls = 1 \<or> length cls = 2"
  by (simp_all add: re_m_def re_d_def re_H_def re_M_def re_S_def)

lemma year_group:
  assumes "(Y, r) \<in> set (match_alts re_Y (y1 # y2 # y3 # y4 # rest))"
  shows "Y = [y1, y2, y3, y4] \<and> r = rest"
proof -
  from assms have m: "(Y, r) \<in> set (match_seq [digits, digits, digits, digits] (y1 # y2 # y3 # y4 # rest))"
    by (simp add: match_alts_def re_Y_def)
  from match_seq_sound [OF m] have s: "y1 # y2 # y3 # y4 # rest = Y @ r" by simp
  from match_seq_length [OF m] have "length Y = 4" by simp
  then obtain a b c d where "Y = [a, b, c, d]"
    by (auto simp: length_Suc_conv numeral_eq_Suc)
  with s show ?thesis by simp
qed

text \<open>A group of two digits that is followed by a separator which is not a digit.\<close>

lemma group_then_literal:
  assumes "(m, r) \<in> set (match_alts alts (a # b # sep # rest))"
    and "\<forall>cls \<in> set alts. length cls = 1 \<or> length cls = 2"
    and "r' \<in> set (match_lit sep r)"
    and "b \<noteq> sep"
  shows "m = [a, b] \<and> r' = rest"
proof -
  from match_lit_sound [OF assms(3)] have r: "r = sep # r'" .
  from alts_one_or_two [OF assms(1,2)] r assms(4) show ?thesis by auto
qed

lemma group_then_spaces:
  assumes "(m, r) \<in> set (match_alts alts (a # b # CHR '' '' # c # rest))"
    and "\<forall>cls \<in> set alts. length cls = 1 \<or> length cls = 2"
    and "r' \<in> set (match_spaces r)"
    and "\<not> is_space b" "\<not> is_space c"
  shows "m = [a, b] \<and> r' = c # rest"
proof -
  from assms(3) have "\<exists>k. 1 \<le> k \<and> k < Suc (length (takeWhile is_space r)) \<and> r' = drop k r"
    by (auto simp: match_spaces_def simp del: upt_Suc)
  then obtain k where k: "1 \<le> k" "k \<le> length (takeWhile is_space r)" "r' = drop k r"
    by (auto simp: less_Suc_eq_le)
  from alts_one_or_two [OF assms(1,2)] show ?thesis
  proof
    assume "m = [a] \<and> r = b # CHR '' '' # c # rest"
    with assms(4) have "takeWhile is_space r = []" by simp
    with k show ?thesis by simp
  next
    assume h: "m = [a, b] \<and> r = CHR '' '' # c # rest"
    with assms(5) have "takeWhile is_space r = [CHR '' '']"
      by (simp add: is_space_def)
    with k have "k = 1" by simp
    with k(3) h show ?thesis by simp
  qed
qed

lemma digit_not_sep: "c \<in> set digits \<Longrightarrow> c \<noteq> CHR ''-'' \<and> c \<noteq> CHR '':''"
  by (auto simp: digits_def)

lemma format_regex_match_in_form:
  assumes "lexical_form raw" and "format_regex_match raw = Some (dt, [])"
  shows "dt = fields_of raw"
proof -
  from assms(1) obtain y1 y2 y3 y4 m1 m2 d1 d2 h1 h2 n1 n2 s1 s2 where
    r: "raw = [y1, y2, y3, y4, CHR ''-'', m1, m2, CHR ''-'', d1, d2, CHR '' '',
            h1, h2, CHR '':'', n1, n2, CHR '':'', s1, s2]"
    and d: "set [y1, y2, y3, y4] \<subseteq> set digits" "set [m1, m2] \<subseteq> set digits"
    "set [d1, d2] \<subseteq> set digits" "set [h1, h2] \<subseteq> set digits"
    "set [n1, n2] \<subseteq> set digits" "set [s1, s2] \<subseteq> set digits"
    by (rule lexical_formE)
  define l where "l = [(\<lparr>year = int_of Y, month = int_of m, day = int_of d,
               hour = int_of H, minute = int_of M, second = int_of S\<rparr>, r11).
              (Y, r1) \<leftarrow> match_alts re_Y raw, r2 \<leftarrow> match_lit CHR ''-'' r1,
              (m, r3) \<leftarrow> match_alts re_m r2, r4 \<leftarrow> match_lit CHR ''-'' r3,
              (d, r5) \<leftarrow> match_alts re_d r4, r6 \<leftarrow> match_spaces r5,
              (H, r7) \<leftarrow> match_alts re_H r6, r8 \<leftarrow> match_lit CHR '':'' r7,
              (M, r9) \<leftarrow> match_alts re_M r8, r10 \<leftarrow> match_lit CHR '':'' r9,
              (S, r11) \<leftarrow> match_alts re_S r10]"
  have "(case l of [] \<Rightarrow> None | found # _ \<Rightarrow> Some found) = Some (dt, [])"
    using assms(2) unfolding format_regex_match_def l_def .
  then have "(dt, []) \<in> set l"
    by (cases l) simp_all
  then obtain Y r1 r2 m r3 r4 dd r5 r6 H r7 r8 M r9 r10 S where
    h: "(Y, r1) \<in> set (match_alts re_Y raw)" "r2 \<in> set (match_lit CHR ''-'' r1)"
       "(m, r3) \<in> set (match_alts re_m r2)" "r4 \<in> set (match_lit CHR ''-'' r3)"
       "(dd, r5) \<in> set (match_alts re_d r4)" "r6 \<in> set (match_spaces r5)"
       "(H, r7) \<in> set (match_alts re_H r6)" "r8 \<in> set (match_lit CHR '':'' r7)"
       "(M, r9) \<in> set (match_alts re_M r8)" "r10 \<in> set (match_lit CHR '':'' r9)"
       "(S, []) \<in> set (match_alts re_S r10)"
    and e: "dt = \<lparr>year = int_of Y, month = int_of m, day = int_of dd,
               hour = int_of H, minute = int_of M, second = int_of S\<rparr>"
    unfolding l_def by auto
  from year_group [OF h(1) [unfolded r]]
  have 1: "Y = [y1, y2, y3, y4]"
    "r1 = [CHR ''-'', m1, m2, CHR ''-'', d1, d2, CHR '' '', h1, h2, CHR '':'', n1, n2, CHR '':'', s1, s2]"
    by simp_all
  from match_lit_sound [OF h(2)] 1(2)
  have 2: "r2 = [m1, m2, CHR ''-'', d1, d2, CHR '' '', h1, h2, CHR '':'', n1, n2, CHR '':'', s1, s2]"
    by simp
  have "m2 \<noteq> CHR ''-''" using d(2) digit_not_sep [of m2] by simp
  from group_then_literal [OF h(3) [unfolded 2] alt_lengths(1) h(4) this]
  have 3: "m = [m1, m2]"
    "r4 = [d1, d2, CHR '' '', h1, h2, CHR '':'', n1, n2, CHR '':'', s1, s2]"
    by simp_all
  have "\<not> is_space d2" "\<not> is_space h1"
    using d(3,4) digit_not_space by simp_all
  from group_then_spaces [OF h(5) [unfolded 3(2)] alt_lengths(2) h(6) this]
  have 4: "dd = [d1, d2]" "r6 = [h1, h2, CHR '':'', n1, n2, CHR '':'', s1, s2]"
    by simp_all
  have "h2 \<noteq> CHR '':''" using d(4) digit_not_sep [of h2] by simp
  from group_then_literal [OF h(7) [unfolded 4(2)] alt_lengths(3) h(8) this]
  have 5: "H = [h1, h2]" "r8 = [n1, n2, CHR '':'', s1, s2]"
    by simp_all
  have "n2 \<noteq> CHR '':''" using d(5) digit_not_sep [of n2] by simp
  from group_then_literal [OF h(9) [unfolded 5(2)] alt_lengths(4) h(10) this]
  have 6: "M = [n1, n2]" "r10 = [s1, s2]"
    by simp_all
  from alts_one_or_two [OF h(11) [unfolded 6(2)] alt_lengths(5)]
  have 7: "S = [s1, s2]"
    by simp
  show ?thesis
    by (simp only: e 1(1) 3(1) 4(1) 5(1) 6(1) 7 r fields_of_explicit)
qed

lemma strptime_empty: "strptime [] = Inl ValueError"
  by (simp add: strptime_def format_regex_match_def match_alts_def re_Y_def)

lemma strptime_in_form:
  assumes "lexical_form raw"
  shows "strptime raw = (if check_fields (fields_of raw) then Inr (fields_of raw) else Inl ValueError)"
proof (cases "check_fields (fields_of raw)")
  case True
  from strptime_canonical [OF True] canonical_fields_of [OF assms] True
  show ?thesis by simp
next
  case False
  have "strptime raw = Inl ValueError"
  proof (cases "strptime raw")
    case (Inl e)
    then show ?thesis by (cases e) simp
  next
    case (Inr dt)
    then have m: "format_regex_match raw = Some (dt, [])" and c: "check_fields dt"
      by (auto simp: strptime_def split: option.splits prod.splits if_splits)
    from format_regex_match_in_form [OF assms m] c False show ?thesis by simp
  qed
  with False show ?thesis by simp
qed

section \<open>Time normalization\<close>

lemma sub_hours_in_range:
  assumes "86400 \<le> seconds_of dt - h * 3600"
    and "seconds_of dt - h * 3600 < 3652060 * 86400"
  shows "\<exists>utc. sub_hours dt h = Inr utc \<and> check_fields utc
           \<and> seconds_of utc = seconds_of dt - h * 3600
           \<and> (364878 * 86400 \<le> seconds_of dt - h * 3600 \<longrightarrow> 1000 \<le> year utc)"
proof -
  define total where "total = seconds_of dt - h * 3600"
  define days where "days = total div 86400"
  define rem where "rem = total mod 86400"
  have t: "total = 86400 * days + rem" "0 \<le> rem" "rem < 86400"
    by (simp_all add: days_def rem_def)
  have d: "1 \<le> days" "days \<le> MAXORDINAL"
    using assms t unfolding total_def [symmetric] MAXORDINAL_def by linarith+
  from ord2ymd_inverse [OF d(1)] obtain y m dd where
    o: "ord2ymd days = (y, m, dd)" "ymd2ord y m dd = days" "1 \<le> y" "1 \<le> m" "m \<le> 12"
       "1 \<le> dd" "dd \<le> days_in_month y m" "364878 \<le> days \<longrightarrow> 1000 \<le> y"
    by blast
  have y: "y \<le> 9999"
    by (rule ord2ymd_year_bound [OF o(1,2,4,5,6) d(2)])
  define utc where "utc = \<lparr>year = y, month = m, day = dd,
     hour = rem div 3600, minute = (rem mod 3600) div 60, second = (rem mod 3600) mod 60\<rparr>"
  have res: "sub_hours dt h = Inr utc"
    using d o(1)
    by (simp add: sub_hours_def Let_def utc_def seconds_of_def [symmetric]
          total_def [symmetric] days_def [symmetric] rem_def [symmetric]
          flip: seconds_of_def)
  have hr: "0 \<le> rem div 3600" "rem div 3600 \<le> 23"
    using t(2,3) by linarith+
  have mn: "0 \<le> rem mod 3600 div 60" "rem mod 3600 div 60 \<le> 59"
  proof -
    have "0 \<le> rem mod 3600" "rem mod 3600 < 3600" by simp_all
    then show "0 \<le> rem mod 3600 div 60" "rem mod 3600 div 60 \<le> 59" by linarith+
  qed
  have chk: "check_fields utc"
    using o(3-7) y hr mn by (simp add: check_fields_def utc_def)
  have "rem div 3600 * 3600 + rem mod 3600 div 60 * 60 + rem mod 3600 mod 60 = rem"
    by (simp add: algebra_simps)
  then have "seconds_of utc = total"
    using o(2) t(1) by (simp add: seconds_of_def toordinal_def utc_def)
  moreover have "364878 * 86400 \<le> total \<longrightarrow> 1000 \<le> year utc"
  proof
    assume "364878 * 86400 \<le> total"
    with t have "364878 \<le> days" by linarith
    with o(8) show "1000 \<le> year utc" by (simp add: utc_def)
  qed
  ultimately show ?thesis
    using res chk by (auto simp: total_def)
qed

lemma range_bounds:
  "seconds_of \<lparr>year = 1000, month = 1, day = 1, hour = 0, minute = 0, second = 0\<rparr> = 364878 * 86400"
  "seconds_of \<lparr>year = 9999, month = 12, day = 31, hour = 23, minute = 59, second = 59\<rparr>
     = 3652060 * 86400 - 1"
  by (simp_all add: seconds_of_def toordinal_def ymd2ord_def days_before_year_def
        days_before_month_def DAYS_BEFORE_MONTH_def is_leap_def)

lemma to_utc_accepted:
  assumes "strptime raw = Inr dt"
    and "seconds_of \<lparr>year = 1000, month = 1, day = 1, hour = 0, minute = 0, second = 0\<rparr>
           \<le> seconds_of dt - offset * 3600"
    and "seconds_of dt - offset * 3600
           \<le> seconds_of \<lparr>year = 9999, month = 12, day = 31, hour = 23, minute = 59, second = 59\<rparr>"
  shows "\<exists>utc. to_utc offset raw = Inr (canonical utc) \<and> lexical_form (canonical utc)
           \<and> check_fields utc \<and> 1000 \<le> year utc
           \<and> seconds_of utc = seconds_of dt - offset * 3600"
proof -
  from assms(2,3) have r: "86400 \<le> seconds_of dt - offset * 3600"
    "seconds_of dt - offset * 3600 < 3652060 * 86400"
    "364878 * 86400 \<le> seconds_of dt - offset * 3600"
    by (simp_all add: range_bounds)
  from sub_hours_in_range [OF r(1,2)] r(3) obtain utc where
    u: "sub_hours dt offset = Inr utc" "check_fields utc"
       "seconds_of utc = seconds_of dt - offset * 3600" "1000 \<le> year utc"
    by blast
  from u(2) have "year utc \<le> 9999"
    by (simp add: check_fields_def)
  with u(4) have c: "strftime utc = canonical utc"
    by (simp add: strftime_canonical)
  have ne: "raw \<noteq> []"
    using assms(1) strptime_empty by auto
  have "to_utc offset raw = Inr (canonical utc)"
    using assms(1) u(1) ne c by (simp add: to_utc_def)
  with u show ?thesis
    by (auto simp: lexical_form_canonical)
qed


text \<open>
  C3 (as the code has it).  The conversion of lines 108 to 116 is a function of the
  raw string and the offset.  The empty string gives the empty string.  Every string
  that \<open>strptime\<close> rejects is returned unchanged; among them is every string of the form
  \<open>YYYY-MM-DD HH:MM:SS\<close> whose fields are not a valid date and time.  A string of that
  form whose fields are a valid date and time is accepted with those fields.  For every
  string that \<open>strptime\<close> accepts, of that form or not, whose time minus \<open>offset\<close> hours
  lies between 1000-01-01 00:00:00 and 9999-12-31 23:59:59, the result is that shifted
  time written in the form \<open>YYYY-MM-DD HH:MM:SS\<close>; so an accepted string that is not of
  that form is not returned unchanged.
\<close>

theorem normalize_to_utc:
  "to_utc offset [] = Inr []
   \<and> (strptime raw = Inl ValueError \<longrightarrow> to_utc offset raw = Inr raw)
   \<and> (lexical_form raw \<and> \<not> check_fields (fields_of raw) \<longrightarrow> to_utc offset raw = Inr raw)
   \<and> (lexical_form raw \<and> check_fields (fields_of raw)
        \<and> seconds_of \<lparr>year = 1000, month = 1, day = 1, hour = 0, minute = 0, second = 0\<rparr>
            \<le> seconds_of (fields_of raw) - offset * 3600
        \<and> seconds_of (fields_of raw) - offset * 3600
            \<le> seconds_of \<lparr>year = 9999, month = 12, day = 31, hour = 23, minute = 59, second = 59\<rparr>
        \<longrightarrow> (\<exists>utc. to_utc offset raw = Inr (canonical utc) \<and> lexical_form (canonical utc)
                  \<and> check_fields utc \<and> 1000 \<le> year utc
                  \<and> seconds_of utc = seconds_of (fields_of raw) - offset * 3600))
   \<and> (strptime raw = Inr dt
        \<and> seconds_of \<lparr>year = 1000, month = 1, day = 1, hour = 0, minute = 0, second = 0\<rparr>
            \<le> seconds_of dt - offset * 3600
        \<and> seconds_of dt - offset * 3600
            \<le> seconds_of \<lparr>year = 9999, month = 12, day = 31, hour = 23, minute = 59, second = 59\<rparr>
        \<longrightarrow> (\<exists>utc. to_utc offset raw = Inr (canonical utc) \<and> lexical_form (canonical utc)
                  \<and> check_fields utc \<and> 1000 \<le> year utc
                  \<and> seconds_of utc = seconds_of dt - offset * 3600)
            \<and> (\<not> lexical_form raw \<longrightarrow> to_utc offset raw \<noteq> Inr raw))"
proof (intro conjI impI)
  show "to_utc offset [] = Inr []"
    by (simp add: to_utc_def)
next
  assume "strptime raw = Inl ValueError"
  then show "to_utc offset raw = Inr raw"
    by (simp add: to_utc_def)
next
  assume "lexical_form raw \<and> \<not> check_fields (fields_of raw)"
  then have "strptime raw = Inl ValueError"
    by (simp add: strptime_in_form)
  then show "to_utc offset raw = Inr raw"
    by (simp add: to_utc_def)
next
  assume a: "lexical_form raw \<and> check_fields (fields_of raw)
        \<and> seconds_of \<lparr>year = 1000, month = 1, day = 1, hour = 0, minute = 0, second = 0\<rparr>
            \<le> seconds_of (fields_of raw) - offset * 3600
        \<and> seconds_of (fields_of raw) - offset * 3600
            \<le> seconds_of \<lparr>year = 9999, month = 12, day = 31, hour = 23, minute = 59, second = 59\<rparr>"
  then have "strptime raw = Inr (fields_of raw)"
    by (simp add: strptime_in_form)
  with a show "\<exists>utc. to_utc offset raw = Inr (canonical utc) \<and> lexical_form (canonical utc)
                  \<and> check_fields utc \<and> 1000 \<le> year utc
                  \<and> seconds_of utc = seconds_of (fields_of raw) - offset * 3600"
    by (intro to_utc_accepted) simp_all
next
  assume a: "strptime raw = Inr dt
        \<and> seconds_of \<lparr>year = 1000, month = 1, day = 1, hour = 0, minute = 0, second = 0\<rparr>
            \<le> seconds_of dt - offset * 3600
        \<and> seconds_of dt - offset * 3600
            \<le> seconds_of \<lparr>year = 9999, month = 12, day = 31, hour = 23, minute = 59, second = 59\<rparr>"
  then show "\<exists>utc. to_utc offset raw = Inr (canonical utc) \<and> lexical_form (canonical utc)
                  \<and> check_fields utc \<and> 1000 \<le> year utc
                  \<and> seconds_of utc = seconds_of dt - offset * 3600"
    by (intro to_utc_accepted) simp_all
next
  assume a: "strptime raw = Inr dt
        \<and> seconds_of \<lparr>year = 1000, month = 1, day = 1, hour = 0, minute = 0, second = 0\<rparr>
            \<le> seconds_of dt - offset * 3600
        \<and> seconds_of dt - offset * 3600
            \<le> seconds_of \<lparr>year = 9999, month = 12, day = 31, hour = 23, minute = 59, second = 59\<rparr>"
    and n: "\<not> lexical_form raw"
  from a have "\<exists>utc. to_utc offset raw = Inr (canonical utc) \<and> lexical_form (canonical utc)
                  \<and> check_fields utc \<and> 1000 \<le> year utc
                  \<and> seconds_of utc = seconds_of dt - offset * 3600"
    by (intro to_utc_accepted) simp_all
  then obtain utc where u: "to_utc offset raw = Inr (canonical utc)" "lexical_form (canonical utc)"
    by blast
  show "to_utc offset raw \<noteq> Inr raw"
  proof
    assume "to_utc offset raw = Inr raw"
    with u have "raw = canonical utc" by simp
    with u(2) n show False by simp
  qed
qed

theorem normalize_to_utc_witness:
  "to_utc FIVE9_TZ_OFFSET_HOURS ''not a time'' = Inr ''not a time''
   \<and> to_utc FIVE9_TZ_OFFSET_HOURS ''2024-02-30 10:00:00'' = Inr ''2024-02-30 10:00:00''
   \<and> (\<exists>utc. to_utc FIVE9_TZ_OFFSET_HOURS ''2024-01-15 10:00:00'' = Inr (canonical utc)
          \<and> seconds_of utc
              = seconds_of (fields_of ''2024-01-15 10:00:00'') - FIVE9_TZ_OFFSET_HOURS * 3600)
   \<and> to_utc FIVE9_TZ_OFFSET_HOURS ''2024-01-15 10:00:00'' = Inr ''2024-01-15 18:00:00''
   \<and> (\<exists>utc. to_utc FIVE9_TZ_OFFSET_HOURS ''2024-1-5 1:2:3'' = Inr (canonical utc)
          \<and> seconds_of utc
              = seconds_of \<lparr>year = 2024, month = 1, day = 5, hour = 1, minute = 2, second = 3\<rparr>
                - FIVE9_TZ_OFFSET_HOURS * 3600)
   \<and> to_utc FIVE9_TZ_OFFSET_HOURS ''2024-1-5 1:2:3'' \<noteq> Inr ''2024-1-5 1:2:3''"
proof -
  define dt where "dt = \<lparr>year = 2024, month = 1, day = 5, hour = 1, minute = 2, second = 3\<rparr>"
  have h1: "strptime ''not a time'' = Inl ValueError"
    by code_simp
  have h2: "lexical_form ''2024-02-30 10:00:00'' \<and> \<not> check_fields (fields_of ''2024-02-30 10:00:00'')"
    by code_simp
  have h3: "lexical_form ''2024-01-15 10:00:00'' \<and> check_fields (fields_of ''2024-01-15 10:00:00'')
        \<and> seconds_of \<lparr>year = 1000, month = 1, day = 1, hour = 0, minute = 0, second = 0\<rparr>
            \<le> seconds_of (fields_of ''2024-01-15 10:00:00'') - FIVE9_TZ_OFFSET_HOURS * 3600
        \<and> seconds_of (fields_of ''2024-01-15 10:00:00'') - FIVE9_TZ_OFFSET_HOURS * 3600
            \<le> seconds_of \<lparr>year = 9999, month = 12, day = 31, hour = 23, minute = 59, second = 59\<rparr>"
    by code_simp
  have h4: "strptime ''2024-1-5 1:2:3'' = Inr dt
        \<and> seconds_of \<lparr>year = 1000, month = 1, day = 1, hour = 0, minute = 0, second = 0\<rparr>
            \<le> seconds_of dt - FIVE9_TZ_OFFSET_HOURS * 3600
        \<and> seconds_of dt - FIVE9_TZ_OFFSET_HOURS * 3600
            \<le> seconds_of \<lparr>year = 9999, month = 12, day = 31, hour = 23, minute = 59, second = 59\<rparr>"
    unfolding dt_def by code_simp
  have h5: "\<not> lexical_form ''2024-1-5 1:2:3''"
    by code_simp
  have e: "to_utc FIVE9_TZ_OFFSET_HOURS ''2024-01-15 10:00:00'' = Inr ''2024-01-15 18:00:00''"
    by code_simp
  from normalize_to_utc [where offset = FIVE9_TZ_OFFSET_HOURS and raw = "''not a time''"] h1
  have 1: "to_utc FIVE9_TZ_OFFSET_HOURS ''not a time'' = Inr ''not a time''"
    by blast
  from normalize_to_utc [where offset = FIVE9_TZ_OFFSET_HOURS and raw = "''2024-02-30 10:00:00''"] h2
  have 2: "to_utc FIVE9_TZ_OFFSET_HOURS ''2024-02-30 10:00:00'' = Inr ''2024-02-30 10:00:00''"
    by blast
  from normalize_to_utc [where offset = FIVE9_TZ_OFFSET_HOURS and raw = "''2024-01-15 10:00:00''"] h3
  have 3: "\<exists>utc. to_utc FIVE9_TZ_OFFSET_HOURS ''2024-01-15 10:00:00'' = Inr (canonical utc)
          \<and> seconds_of utc
              = seconds_of (fields_of ''2024-01-15 10:00:00'') - FIVE9_TZ_OFFSET_HOURS * 3600"
    by blast
  from normalize_to_utc [where offset = FIVE9_TZ_OFFSET_HOURS and raw = "''2024-1-5 1:2:3''"
         and dt = dt] h4 h5
  have 4: "(\<exists>utc. to_utc FIVE9_TZ_OFFSET_HOURS ''2024-1-5 1:2:3'' = Inr (canonical utc)
          \<and> seconds_of utc = seconds_of dt - FIVE9_TZ_OFFSET_HOURS * 3600)
       \<and> to_utc FIVE9_TZ_OFFSET_HOURS ''2024-1-5 1:2:3'' \<noteq> Inr ''2024-1-5 1:2:3''"
    by blast
  show ?thesis
    using 1 2 3 4 e unfolding dt_def by simp
qed


text \<open>
  C3 as stated fails.  The string \<open>2024-1-5 1:2:3\<close> is not of the form
  \<open>YYYY-MM-DD HH:MM:SS\<close>, yet \<open>strptime\<close> accepts fields of one digit and the result
  is the shifted timestamp, not the input.  The string \<open>9999-12-31 23:59:59\<close> is of
  the form, and the conversion raises \<open>OverflowError\<close>.
\<close>

theorem normalize_accepts_other_forms:
  "\<not> lexical_form ''2024-1-5 1:2:3''
   \<and> to_utc FIVE9_TZ_OFFSET_HOURS ''2024-1-5 1:2:3'' = Inr ''2024-01-05 09:02:03''
   \<and> lexical_form ''9999-12-31 23:59:59''
   \<and> to_utc FIVE9_TZ_OFFSET_HOURS ''9999-12-31 23:59:59'' = Inl OverflowError"
  by code_simp


end
